theory Spec2Isabelle
  imports Complex_Main
begin

section \<open>Scalars: the values a numpy float64 can take\<close>

text \<open>
  Both routines compute with numpy float64 scalars and arrays.  A scalar is modelled as
  a real or one of the three special values of IEEE-754 arithmetic, because the source
  divides without a test of the divisor: under numpy's default error state a float64
  division by zero does not raise, it yields an infinity or NaN, and every comparison
  with NaN is false.  A finite result at or beyond the largest float64 overflows to an
  infinity, as it does in the code.  Rounding to 53 bits and underflow are not modelled,
  so no theorem below is about the digits of a result; the two zeros are not told apart
  (every divisor in the source is a norm or the square of one, so a zero divisor is never
  negative zero).
\<close>

datatype npfloat = Fin real | PInf | NInf | NaN

text \<open>Round-to-nearest turns every real of magnitude \<open>2\<^sup>1\<^sup>0\<^sup>2\<^sup>4 - 2\<^sup>9\<^sup>7\<^sup>0\<close> or more, half an
  ulp above the largest float64, into an infinity.\<close>

definition overflow_threshold :: real where
  "overflow_threshold = 2 ^ 1024 - 2 ^ 970"

definition overflow :: "real \<Rightarrow> npfloat" where
  "overflow r =
     (if overflow_threshold \<le> r then PInf
      else if r \<le> - overflow_threshold then NInf
      else Fin r)"

fun f_neg :: "npfloat \<Rightarrow> npfloat" where
  "f_neg (Fin x) = Fin (- x)"
| "f_neg PInf = NInf"
| "f_neg NInf = PInf"
| "f_neg NaN = NaN"

fun f_add :: "npfloat \<Rightarrow> npfloat \<Rightarrow> npfloat" where
  "f_add NaN _ = NaN"
| "f_add _ NaN = NaN"
| "f_add (Fin x) (Fin y) = overflow (x + y)"
| "f_add PInf NInf = NaN"
| "f_add NInf PInf = NaN"
| "f_add PInf _ = PInf"
| "f_add _ PInf = PInf"
| "f_add NInf _ = NInf"
| "f_add _ NInf = NInf"

definition f_sub :: "npfloat \<Rightarrow> npfloat \<Rightarrow> npfloat" where
  "f_sub a b = f_add a (f_neg b)"

fun f_mul :: "npfloat \<Rightarrow> npfloat \<Rightarrow> npfloat" where
  "f_mul NaN _ = NaN"
| "f_mul _ NaN = NaN"
| "f_mul (Fin x) (Fin y) = overflow (x * y)"
| "f_mul (Fin x) PInf = (if x = 0 then NaN else if 0 < x then PInf else NInf)"
| "f_mul (Fin x) NInf = (if x = 0 then NaN else if 0 < x then NInf else PInf)"
| "f_mul PInf (Fin y) = (if y = 0 then NaN else if 0 < y then PInf else NInf)"
| "f_mul NInf (Fin y) = (if y = 0 then NaN else if 0 < y then NInf else PInf)"
| "f_mul PInf PInf = PInf"
| "f_mul PInf NInf = NInf"
| "f_mul NInf PInf = NInf"
| "f_mul NInf NInf = PInf"

fun f_div :: "npfloat \<Rightarrow> npfloat \<Rightarrow> npfloat" where
  "f_div NaN _ = NaN"
| "f_div _ NaN = NaN"
| "f_div (Fin x) (Fin y) =
     (if y = 0 then (if x = 0 then NaN else if 0 < x then PInf else NInf)
      else overflow (x / y))"
| "f_div (Fin x) PInf = Fin 0"
| "f_div (Fin x) NInf = Fin 0"
| "f_div PInf (Fin y) = (if y < 0 then NInf else PInf)"
| "f_div NInf (Fin y) = (if y < 0 then PInf else NInf)"
| "f_div PInf PInf = NaN"
| "f_div PInf NInf = NaN"
| "f_div NInf PInf = NaN"
| "f_div NInf NInf = NaN"

fun f_abs :: "npfloat \<Rightarrow> npfloat" where
  "f_abs (Fin x) = Fin \<bar>x\<bar>"
| "f_abs PInf = PInf"
| "f_abs NInf = PInf"
| "f_abs NaN = NaN"

fun f_sqrt :: "npfloat \<Rightarrow> npfloat" where
  "f_sqrt (Fin x) = (if x < 0 then NaN else Fin (sqrt x))"
| "f_sqrt PInf = PInf"
| "f_sqrt NInf = NaN"
| "f_sqrt NaN = NaN"

text \<open>The comparisons \<open>a <= b\<close>, \<open>a < b\<close>, \<open>a >= b\<close> and \<open>a == b\<close>: false whenever
  an operand is NaN.\<close>

fun f_le :: "npfloat \<Rightarrow> npfloat \<Rightarrow> bool" where
  "f_le NaN _ = False"
| "f_le _ NaN = False"
| "f_le (Fin x) (Fin y) = (x \<le> y)"
| "f_le NInf _ = True"
| "f_le _ PInf = True"
| "f_le PInf _ = False"
| "f_le _ NInf = False"

fun f_lt :: "npfloat \<Rightarrow> npfloat \<Rightarrow> bool" where
  "f_lt NaN _ = False"
| "f_lt _ NaN = False"
| "f_lt (Fin x) (Fin y) = (x < y)"
| "f_lt PInf _ = False"
| "f_lt _ NInf = False"
| "f_lt NInf _ = True"
| "f_lt _ PInf = True"

definition f_ge :: "npfloat \<Rightarrow> npfloat \<Rightarrow> bool" where
  "f_ge a b = f_le b a"

fun f_eq :: "npfloat \<Rightarrow> npfloat \<Rightarrow> bool" where
  "f_eq NaN _ = False"
| "f_eq _ NaN = False"
| "f_eq a b = (a = b)"

text \<open>numpy's \<open>maximum\<close> reduction hands a NaN on.\<close>

definition f_max :: "npfloat \<Rightarrow> npfloat \<Rightarrow> npfloat" where
  "f_max a b = (if a = NaN \<or> b = NaN then NaN else if f_le a b then b else a)"

definition f_sum :: "npfloat list \<Rightarrow> npfloat" where
  "f_sum xs = foldr f_add xs (Fin 0)"

section \<open>Arrays and the numpy primitives the routines call\<close>

text \<open>
  A two-dimensional array is the list of its rows.  The routines are meant for an
  \<open>m \<times> n\<close> array with \<open>m, n \<ge> 1\<close>; for such an input every product and difference
  below is taken between arrays of conforming shapes (section ``The shapes conform''), so
  numpy's shape errors do not arise and the operations are written as total functions on
  lists.  Arrays with a dimension of length zero are outside the model.
\<close>

type_synonym matrix = "npfloat list list"

definition shape :: "matrix \<Rightarrow> nat \<times> nat" where
  "shape A = (length A, (case A of [] \<Rightarrow> 0 | r # _ \<Rightarrow> length r))"

fun transpose_m :: "'a list list \<Rightarrow> 'a list list" where
  "transpose_m [] = []"
| "transpose_m [r] = map (\<lambda>x. [x]) r"
| "transpose_m (r # rs) = map2 (#) r (transpose_m rs)"

definition eye :: "nat \<Rightarrow> matrix" where
  "eye n = map (\<lambda>i. map (\<lambda>j. if i = j then Fin 1 else Fin 0) [0..<n]) [0..<n]"

definition scalar_mul :: "npfloat \<Rightarrow> matrix \<Rightarrow> matrix" where
  "scalar_mul c A = map (map (f_mul c)) A"

definition subtract :: "matrix \<Rightarrow> matrix \<Rightarrow> matrix" where
  "subtract A B = map2 (map2 f_sub) A B"

definition dot :: "matrix \<Rightarrow> matrix \<Rightarrow> matrix" where
  "dot A B = map (\<lambda>r. map (\<lambda>c. f_sum (map2 f_mul r c)) (transpose_m B)) A"

text \<open>\<open>LA.norm(A, ord='fro')\<close> is \<open>sqrt(sum(abs(A)**2))\<close>; \<open>LA.norm(A, np.inf)\<close> is the
  largest sum of absolute values along a row.  The maximum is folded from 0, which does
  not show in the result for an array that has a row (lemma \<open>norm_inf_snoc\<close>).\<close>

definition norm_fro :: "matrix \<Rightarrow> npfloat" where
  "norm_fro A = f_sqrt (f_sum (map (\<lambda>x. f_mul (f_abs x) (f_abs x)) (concat A)))"

definition norm_inf :: "matrix \<Rightarrow> npfloat" where
  "norm_inf A = foldr f_max (map (\<lambda>r. f_sum (map f_abs r)) A) (Fin 0)"

text \<open>
  \<open>LA.det\<close> and \<open>LA.matrix_rank\<close> are LAPACK routines (an LU factorisation, a singular
  value decomposition with a threshold).  They are parameters of the model, \<open>det\<close> with a
  scalar and \<open>rk\<close> with a natural number as value, so that every theorem holds for
  whatever they compute.  \<open>LA.det\<close> first checks that its argument is square and raises
  \<open>LinAlgError\<close> otherwise; this is the exception the \<open>try\<close> of \<open>shultz_inv\<close> catches.
\<close>

datatype exn = LinAlgError

definition LA_det :: "(matrix \<Rightarrow> npfloat) \<Rightarrow> matrix \<Rightarrow> exn + npfloat" where
  "LA_det det original =
     (if fst (shape original) = snd (shape original) then Inr (det original)
      else Inl LinAlgError)"

section \<open>The state of the iteration\<close>

record state =
  approx :: matrix
  sigma :: npfloat
  k :: int

text \<open>Where a call returned: before the loop was reached, from inside the loop body,
  or after the loop, with the loop variables as they were at that point.\<close>

datatype exit_point = Before_Loop | In_Loop state | After_Loop state

text \<open>Lines 24-26 of \<open>Ben_Israel_method.py\<close> and 36-38 of \<open>Shultz_method.py\<close>.\<close>

definition alpha :: "matrix \<Rightarrow> npfloat" where
  "alpha original =
     (let frobenius_norm = norm_fro original
      in f_div (Fin 1.8) (f_mul frobenius_norm frobenius_norm))"

definition init :: "matrix \<Rightarrow> state" where
  "init original =
     \<lparr>approx = scalar_mul (alpha original) (transpose_m original), sigma = Fin 1, k = 0\<rparr>"

section \<open>\<open>shultz_inv\<close>\<close>

definition shultz_unit :: "matrix \<Rightarrow> matrix" where
  "shultz_unit original = (let n = fst (shape original) in scalar_mul (Fin 2) (eye n))"

definition shultz_update :: "matrix \<Rightarrow> matrix \<Rightarrow> matrix" where
  "shultz_update original X =
     (let a = dot original X;
          b = subtract (shultz_unit original) a
      in dot X b)"

definition shultz_body :: "matrix \<Rightarrow> state \<Rightarrow> state" where
  "shultz_body original st =
     (let approx_copy = approx st;
          approx' = shultz_update original (approx st);
          numerator = norm_inf (subtract approx' approx_copy);
          denominator = norm_inf approx_copy
      in \<lparr>approx = approx', sigma = f_div numerator denominator, k = k st + 1\<rparr>)"

function shultz_loop :: "matrix \<Rightarrow> npfloat \<Rightarrow> int \<Rightarrow> state \<Rightarrow> state" where
  "shultz_loop original tolerance max_iterations st =
     (if f_ge (sigma st) tolerance \<and> k st < max_iterations
      then shultz_loop original tolerance max_iterations (shultz_body original st)
      else st)"
  by pat_completeness auto
termination
  by (relation "measure (\<lambda>(original, tolerance, max_iterations, st). nat (max_iterations - k st))")
     (auto simp: shultz_body_def Let_def)

declare shultz_loop.simps [simp del]

text \<open>Lines 72-79: the test after the loop.\<close>

definition shultz_result :: "npfloat \<Rightarrow> state \<Rightarrow> matrix option" where
  "shultz_result tolerance st =
     (if f_lt (sigma st) tolerance then Some (approx st) else None)"

text \<open>The call, with the place it returned from beside the value it returned.\<close>

definition shultz_run ::
  "(matrix \<Rightarrow> npfloat) \<Rightarrow> matrix \<Rightarrow> npfloat \<Rightarrow> int \<Rightarrow> matrix option \<times> exit_point" where
  "shultz_run det original tolerance max_iterations =
     (case LA_det det original of
        Inl LinAlgError \<Rightarrow> (None, Before_Loop)
      | Inr d \<Rightarrow>
          if f_eq d (Fin 0) then (None, Before_Loop)
          else
            let st = shultz_loop original tolerance max_iterations (init original)
            in (shultz_result tolerance st, After_Loop st))"

definition shultz_inv :: "(matrix \<Rightarrow> npfloat) \<Rightarrow> matrix \<Rightarrow> npfloat \<Rightarrow> int \<Rightarrow> matrix option" where
  "shultz_inv det original tolerance max_iterations =
     fst (shultz_run det original tolerance max_iterations)"

section \<open>\<open>gen_inv\<close>\<close>

definition dimension :: "matrix \<Rightarrow> nat \<times> nat" where
  "dimension original = shape original"

definition m_or_n :: "matrix \<Rightarrow> nat" where
  "m_or_n original = min (fst (dimension original)) (snd (dimension original))"

text \<open>\<open>dimension.index(m_or_n)\<close>: the first position of the tuple that holds the minimum.\<close>

definition row_or_column :: "matrix \<Rightarrow> nat" where
  "row_or_column original = (if fst (dimension original) = m_or_n original then 0 else 1)"

definition gen_unit :: "matrix \<Rightarrow> matrix" where
  "gen_unit original = scalar_mul (Fin 2) (eye (m_or_n original))"

definition gen_update_column :: "matrix \<Rightarrow> matrix \<Rightarrow> matrix" where
  "gen_update_column original X =
     (let a = dot X original;
          b = subtract (gen_unit original) a
      in dot b X)"

definition gen_update_row :: "matrix \<Rightarrow> matrix \<Rightarrow> matrix" where
  "gen_update_row original X =
     (let a = dot original X;
          b = subtract (gen_unit original) a
      in dot X b)"

text \<open>Lines 69-74: the new value of \<open>sigma\<close> from the new and the previous approximation.\<close>

definition measure_step :: "state \<Rightarrow> matrix \<Rightarrow> state" where
  "measure_step st approx' =
     (let approx_copy = approx st;
          numerator = norm_inf (subtract approx' approx_copy);
          denominator = norm_inf approx_copy
      in \<lparr>approx = approx', sigma = f_div numerator denominator, k = k st + 1\<rparr>)"

text \<open>One pass through the loop body: \<open>In_Loop\<close> is the \<open>return None\<close> of line 67
  (the counter is already incremented there), \<open>After_Loop\<close> hands the new loop variables
  back to the loop test.\<close>

definition gen_body :: "(matrix \<Rightarrow> nat) \<Rightarrow> matrix \<Rightarrow> state \<Rightarrow> exit_point" where
  "gen_body rk original st =
     (if row_or_column original \<noteq> 0 \<and> rk original = m_or_n original
      then After_Loop (measure_step st (gen_update_column original (approx st)))
      else if \<not> row_or_column original \<noteq> 0 \<and> rk original = m_or_n original
      then After_Loop (measure_step st (gen_update_row original (approx st)))
      else In_Loop (st\<lparr>k := k st + 1\<rparr>))"

function gen_loop :: "(matrix \<Rightarrow> nat) \<Rightarrow> matrix \<Rightarrow> npfloat \<Rightarrow> int \<Rightarrow> state \<Rightarrow> exit_point" where
  "gen_loop rk original tolerance max_iterations st =
     (if f_ge (sigma st) tolerance \<and> k st < max_iterations
      then (case gen_body rk original st of
              After_Loop st' \<Rightarrow> gen_loop rk original tolerance max_iterations st'
            | r \<Rightarrow> r)
      else After_Loop st)"
  by pat_completeness auto
termination
  by (relation "measure (\<lambda>(rk, original, tolerance, max_iterations, st). nat (max_iterations - k st))")
     (auto simp: gen_body_def measure_step_def Let_def split: if_splits)

declare gen_loop.simps [simp del]

text \<open>Lines 80-87: the test after the loop; a return from inside the loop is \<open>None\<close>.\<close>

definition gen_result :: "npfloat \<Rightarrow> exit_point \<Rightarrow> matrix option" where
  "gen_result tolerance r =
     (case r of
        After_Loop st \<Rightarrow> if f_le (sigma st) tolerance then Some (approx st) else None
      | _ \<Rightarrow> None)"

definition gen_run ::
  "(matrix \<Rightarrow> nat) \<Rightarrow> matrix \<Rightarrow> npfloat \<Rightarrow> int \<Rightarrow> matrix option \<times> exit_point" where
  "gen_run rk original tolerance max_iterations =
     (let r = gen_loop rk original tolerance max_iterations (init original)
      in (gen_result tolerance r, r))"

definition gen_inv :: "(matrix \<Rightarrow> nat) \<Rightarrow> matrix \<Rightarrow> npfloat \<Rightarrow> int \<Rightarrow> matrix option" where
  "gen_inv rk original tolerance max_iterations =
     fst (gen_run rk original tolerance max_iterations)"

section \<open>Reference determinant and rank for the examples\<close>

text \<open>
  Closed examples need some determinant and some rank.  These two compute them in the
  arithmetic above: cofactor expansion along the first column, and the number of pivots
  of Gaussian elimination.  Where nothing overflows they are the exact determinant and
  rank of a finite matrix.
\<close>

primrec det_n :: "nat \<Rightarrow> matrix \<Rightarrow> npfloat" where
  "det_n 0 A = Fin 1"
| "det_n (Suc n) A =
     f_sum (map (\<lambda>i. f_mul (f_mul (if even i then Fin 1 else Fin (- 1)) (hd (A ! i)))
                           (det_n n (map tl (take i A @ drop (Suc i) A))))
                [0..<Suc n])"

definition det_cofactor :: "matrix \<Rightarrow> npfloat" where
  "det_cofactor A = det_n (length A) A"

primrec rank_cols :: "nat \<Rightarrow> matrix \<Rightarrow> nat" where
  "rank_cols 0 A = 0"
| "rank_cols (Suc c) A =
     (case filter (\<lambda>r. \<not> f_eq (hd r) (Fin 0)) A of
        [] \<Rightarrow> rank_cols c (map tl A)
      | p # _ \<Rightarrow>
          Suc (rank_cols c
                 (map (\<lambda>r. tl (map2 (\<lambda>x y. f_sub x (f_mul (f_div (hd r) (hd p)) y)) r p))
                      (remove1 p A))))"

definition rank_gauss :: "matrix \<Rightarrow> nat" where
  "rank_gauss A = rank_cols (snd (shape A)) A"

section \<open>Scalars at a zero denominator\<close>

text \<open>Two classes of scalars for the analysis of \<open>sigma\<close> when the previous approximation
  has norm zero: the values a sum of absolute values can take, and the values a product
  with zero can take.\<close>

definition nonneg :: "npfloat \<Rightarrow> bool" where
  "nonneg x = (case x of Fin r \<Rightarrow> 0 \<le> r | PInf \<Rightarrow> True | NInf \<Rightarrow> False | NaN \<Rightarrow> True)"

definition zero_or_nan :: "npfloat \<Rightarrow> bool" where
  "zero_or_nan x = (x = Fin 0 \<or> x = NaN)"

section \<open>Shapes\<close>

text \<open>An \<open>m \<times> n\<close> array: \<open>m\<close> rows of \<open>n\<close> entries each.\<close>

definition is_matrix :: "nat \<Rightarrow> nat \<Rightarrow> 'a list list \<Rightarrow> bool" where
  "is_matrix m n A = (length A = m \<and> list_all (\<lambda>r. length r = n) A)"

section \<open>Facts about the comparisons and the two loops\<close>

lemma overflow_Fin: "\<bar>r\<bar> < 2 ^ 1024 - 2 ^ 970 \<Longrightarrow> overflow r = Fin r"
  by (auto simp: overflow_def overflow_threshold_def)

lemma overflow_small [simp]: "\<bar>r\<bar> \<le> 1000000 \<Longrightarrow> overflow r = Fin r"
  by (rule overflow_Fin) simp

lemma overflow_PInf: "2 ^ 1024 - 2 ^ 970 \<le> r \<Longrightarrow> overflow r = PInf"
  by (simp add: overflow_def overflow_threshold_def)

lemma overflow_zero [simp]: "overflow 0 = Fin 0"
  by (simp add: overflow_def overflow_threshold_def)

lemma overflow_cases:
  "overflow r = Fin r \<or> (overflow r = PInf \<and> 0 < r) \<or> (overflow r = NInf \<and> r < 0)"
  by (auto simp: overflow_def overflow_threshold_def)

lemma f_ge_one_gt: "f_lt (Fin 1) t \<Longrightarrow> \<not> f_ge (Fin 1) t"
  by (cases t) (auto simp: f_ge_def)

lemma f_lt_imp_le: "f_lt a b \<Longrightarrow> f_le a b"
  by (cases a; cases b) auto

lemma f_ge_not_lt: "f_ge a b \<Longrightarrow> \<not> f_lt a b"
  by (cases a; cases b) (auto simp: f_ge_def)

lemma f_lt_not_le: "f_lt a b \<Longrightarrow> \<not> f_le b a"
  by (cases a; cases b) auto

lemma f_le_not_lt: "f_le a b \<Longrightarrow> \<not> f_lt b a"
  by (cases a; cases b) auto

lemma gen_loop_stop:
  "\<not> (f_ge (sigma st) tolerance \<and> k st < max_iterations) \<Longrightarrow>
   gen_loop rk original tolerance max_iterations st = After_Loop st"
  by (subst gen_loop.simps) auto

lemma shultz_loop_stop:
  "\<not> (f_ge (sigma st) tolerance \<and> k st < max_iterations) \<Longrightarrow>
   shultz_loop original tolerance max_iterations st = st"
  by (subst shultz_loop.simps) auto

lemma gen_loop_rank_fail:
  assumes "rk original \<noteq> m_or_n original"
    and "f_ge (sigma st) tolerance" and "k st < max_iterations"
  shows "gen_loop rk original tolerance max_iterations st = In_Loop (st\<lparr>k := k st + 1\<rparr>)"
  using assms by (subst gen_loop.simps) (simp add: gen_body_def)

lemma gen_loop_continue:
  assumes "gen_body rk original st = After_Loop st'"
    and "f_ge (sigma st) tolerance" and "k st < max_iterations"
  shows "gen_loop rk original tolerance max_iterations st
         = gen_loop rk original tolerance max_iterations st'"
  using assms by (subst gen_loop.simps) simp

lemma approx_measure_step [simp]: "approx (measure_step st X) = X"
  by (simp add: measure_step_def Let_def)

lemmas np_defs = norm_inf_def f_sum_def f_max_def
  f_sub_def scalar_mul_def dot_def subtract_def eye_def

lemma init_sel [simp]: "sigma (init A) = Fin 1" "k (init A) = 0"
  by (simp_all add: init_def)

section \<open>Sums of absolute values\<close>

lemma nonneg_f_abs: "nonneg (f_abs x)"
  by (cases x) (simp_all add: nonneg_def)

lemma nonneg_overflow: "0 \<le> r \<Longrightarrow> nonneg (overflow r)"
  using overflow_cases [of r] by (auto simp: nonneg_def)

lemma nonneg_f_add: "nonneg a \<Longrightarrow> nonneg b \<Longrightarrow> nonneg (f_add a b)"
  by (cases a; cases b) (simp_all add: nonneg_def nonneg_overflow [unfolded nonneg_def])

lemma nonneg_f_sum: "(\<And>x. x \<in> set xs \<Longrightarrow> nonneg x) \<Longrightarrow> nonneg (f_sum xs)"
proof (induction xs)
  case Nil
  then show ?case by (simp add: f_sum_def nonneg_def)
next
  case (Cons y xs)
  have "nonneg (f_add y (f_sum xs))"
    by (rule nonneg_f_add) (simp_all add: Cons)
  then show ?case by (simp add: f_sum_def)
qed

section \<open>The shapes conform\<close>

text \<open>
  For an \<open>m \<times> n\<close> input with \<open>m, n \<ge> 1\<close> the approximation is an \<open>n \<times> m\<close> array from the
  start and after every update, each product is taken between a \<open>p \<times> j\<close> and a \<open>j \<times> q\<close>
  array, and each difference between arrays of one shape.
\<close>

lemma is_matrix_rows: "is_matrix m n A \<Longrightarrow> r \<in> set A \<Longrightarrow> length r = n"
  by (simp add: is_matrix_def list_all_iff)

lemma is_matrixI: "length A = m \<Longrightarrow> (\<And>r. r \<in> set A \<Longrightarrow> length r = n) \<Longrightarrow> is_matrix m n A"
  by (simp add: is_matrix_def list_all_iff)

lemma shape_is_matrix: "is_matrix m n A \<Longrightarrow> 0 < m \<Longrightarrow> shape A = (m, n)"
  by (cases A) (auto simp: shape_def is_matrix_def)

lemma is_matrix_transpose_m:
  "is_matrix m n A \<Longrightarrow> 0 < m \<Longrightarrow> is_matrix n m (transpose_m A)"
proof (induction A arbitrary: m rule: transpose_m.induct)
  case 1
  then show ?case by (simp add: is_matrix_def)
next
  case (2 r)
  then show ?case by (auto simp: is_matrix_def list_all_iff)
next
  case (3 r v va)
  have t: "is_matrix n (m - 1) (transpose_m (v # va))"
    using "3.prems" by (intro "3.IH") (auto simp: is_matrix_def)
  have r: "length r = n"
    using "3.prems" by (simp add: is_matrix_def)
  show ?case
  proof (rule is_matrixI)
    show "length (transpose_m (r # v # va)) = n"
      using t r by (simp add: is_matrix_def)
    show "length c = m" if "c \<in> set (transpose_m (r # v # va))" for c
    proof -
      from that obtain a u where "(a, u) \<in> set (zip r (transpose_m (v # va)))" "c = a # u"
        by auto
      then have "length u = m - 1"
        using t by (auto dest: set_zip_rightD simp: is_matrix_rows)
      then show ?thesis
        using \<open>c = a # u\<close> "3.prems" by (simp add: is_matrix_def)
    qed
  qed
qed

lemma is_matrix_scalar_mul: "is_matrix m n A \<Longrightarrow> is_matrix m n (scalar_mul c A)"
  by (simp add: is_matrix_def scalar_mul_def list_all_iff)

lemma is_matrix_eye: "is_matrix n n (eye n)"
  by (simp add: is_matrix_def eye_def list_all_iff)

lemma is_matrix_subtract:
  assumes "is_matrix m n A" and "is_matrix m n B"
  shows "is_matrix m n (subtract A B)"
proof (rule is_matrixI)
  show "length (subtract A B) = m"
    using assms by (simp add: subtract_def is_matrix_def)
  show "length r = n" if "r \<in> set (subtract A B)" for r
  proof -
    from that obtain ra rb where z: "(ra, rb) \<in> set (zip A B)" and r: "r = map2 f_sub ra rb"
      by (auto simp: subtract_def)
    have "length ra = n" "length rb = n"
      using z assms by (auto dest: set_zip_leftD set_zip_rightD simp: is_matrix_rows)
    then show ?thesis
      by (simp add: r)
  qed
qed

lemma is_matrix_dot:
  assumes "is_matrix m j A" and "is_matrix j n B" and "0 < j"
  shows "is_matrix m n (dot A B)"
proof -
  have "length (transpose_m B) = n"
    using is_matrix_transpose_m [OF assms(2,3)] by (simp add: is_matrix_def)
  then show ?thesis
    using assms(1) by (simp add: is_matrix_def dot_def list_all_iff)
qed

lemma is_matrix_init:
  "is_matrix m n original \<Longrightarrow> 0 < m \<Longrightarrow> is_matrix n m (approx (init original))"
  by (simp add: init_def is_matrix_scalar_mul is_matrix_transpose_m)

lemma is_matrix_gen_update_row:
  assumes "is_matrix m n original" and "is_matrix n m X" and "0 < m" and "m \<le> n"
  shows "is_matrix n m (gen_update_row original X)"
proof -
  have u: "gen_unit original = scalar_mul (Fin 2) (eye m)"
    using shape_is_matrix [OF assms(1,3)] assms(4)
    by (simp add: gen_unit_def m_or_n_def dimension_def)
  have "is_matrix m m (dot original X)"
    using assms by (intro is_matrix_dot [of m n _ m]) auto
  then have "is_matrix m m (subtract (gen_unit original) (dot original X))"
    unfolding u by (intro is_matrix_subtract is_matrix_scalar_mul is_matrix_eye)
  then show ?thesis
    using assms unfolding gen_update_row_def Let_def by (intro is_matrix_dot [of n m _ m]) auto
qed

lemma is_matrix_gen_update_column:
  assumes "is_matrix m n original" and "is_matrix n m X" and "0 < n" and "n \<le> m"
  shows "is_matrix n m (gen_update_column original X)"
proof -
  have u: "gen_unit original = scalar_mul (Fin 2) (eye n)"
    using shape_is_matrix [OF assms(1)] assms(3,4)
    by (simp add: gen_unit_def m_or_n_def dimension_def)
  have "is_matrix n n (dot X original)"
    using assms by (intro is_matrix_dot [of n m _ n]) auto
  then have "is_matrix n n (subtract (gen_unit original) (dot X original))"
    unfolding u by (intro is_matrix_subtract is_matrix_scalar_mul is_matrix_eye)
  then show ?thesis
    using assms unfolding gen_update_column_def Let_def by (intro is_matrix_dot [of n n _ m]) auto
qed

lemma is_matrix_shultz_update:
  assumes "is_matrix n n original" and "is_matrix n n X" and "0 < n"
  shows "is_matrix n n (shultz_update original X)"
proof -
  have u: "shultz_unit original = scalar_mul (Fin 2) (eye n)"
    using shape_is_matrix [OF assms(1,3)] by (simp add: shultz_unit_def)
  have "is_matrix n n (dot original X)"
    using assms by (intro is_matrix_dot [of n n _ n]) auto
  then have "is_matrix n n (subtract (shultz_unit original) (dot original X))"
    unfolding u by (intro is_matrix_subtract is_matrix_scalar_mul is_matrix_eye)
  then show ?thesis
    using assms unfolding shultz_update_def Let_def by (intro is_matrix_dot [of n n _ n]) auto
qed

lemma is_matrix_gen_body:
  assumes "is_matrix m n original" and "is_matrix n m (approx st)" and "0 < m" and "0 < n"
    and "gen_body rk original st = After_Loop st'"
  shows "is_matrix n m (approx st')"
proof (cases "m \<le> n")
  case True
  then have "row_or_column original = 0"
    using shape_is_matrix [OF assms(1,3)] by (simp add: row_or_column_def m_or_n_def dimension_def)
  then have "approx st' = gen_update_row original (approx st)"
    using assms(5) by (auto simp: gen_body_def split: if_splits)
  then show ?thesis
    using is_matrix_gen_update_row [OF assms(1,2,3) True] by simp
next
  case False
  then have "row_or_column original \<noteq> 0"
    using shape_is_matrix [OF assms(1,3)] by (simp add: row_or_column_def m_or_n_def dimension_def)
  then have "approx st' = gen_update_column original (approx st)"
    using assms(5) by (auto simp: gen_body_def split: if_splits)
  then show ?thesis
    using is_matrix_gen_update_column [OF assms(1,2,4)] False by simp
qed

lemma is_matrix_gen_loop:
  "is_matrix m n original \<Longrightarrow> 0 < m \<Longrightarrow> 0 < n \<Longrightarrow> is_matrix n m (approx st) \<Longrightarrow>
   gen_loop rk original tolerance max_iterations st = After_Loop st' \<Longrightarrow>
   is_matrix n m (approx st')"
proof (induction rk original tolerance max_iterations st rule: gen_loop.induct)
  case (1 rk original tolerance max_iterations st)
  show ?case
  proof (cases "f_ge (sigma st) tolerance \<and> k st < max_iterations")
    case False
    then have "st' = st"
      using "1.prems"(5) by (simp add: gen_loop_stop)
    then show ?thesis
      using "1.prems"(4) by simp
  next
    case True
    show ?thesis
    proof (cases "gen_body rk original st")
      case Before_Loop
      then show ?thesis
        using True "1.prems"(5) by (subst (asm) gen_loop.simps) simp
    next
      case (In_Loop s)
      then show ?thesis
        using True "1.prems"(5) by (subst (asm) gen_loop.simps) simp
    next
      case (After_Loop s)
      have "gen_loop rk original tolerance max_iterations s = After_Loop st'"
        using True "1.prems"(5) After_Loop by (subst (asm) gen_loop.simps) simp
      moreover have "is_matrix n m (approx s)"
        using "1.prems"(1,4,2,3) After_Loop by (rule is_matrix_gen_body)
      ultimately show ?thesis
        using "1.IH" [OF True After_Loop] "1.prems"(1,2,3) by simp
    qed
  qed
qed

lemma is_matrix_shultz_loop:
  "is_matrix n n original \<Longrightarrow> 0 < n \<Longrightarrow> is_matrix n n (approx st) \<Longrightarrow>
   is_matrix n n (approx (shultz_loop original tolerance max_iterations st))"
proof (induction original tolerance max_iterations st rule: shultz_loop.induct)
  case (1 original tolerance max_iterations st)
  show ?case
  proof (cases "f_ge (sigma st) tolerance \<and> k st < max_iterations")
    case False
    then show ?thesis
      using "1.prems"(3) by (simp add: shultz_loop_stop)
  next
    case True
    have "is_matrix n n (approx (shultz_body original st))"
      using is_matrix_shultz_update [OF "1.prems"(1,3,2)]
      by (simp add: shultz_body_def Let_def)
    then have "is_matrix n n
        (approx (shultz_loop original tolerance max_iterations (shultz_body original st)))"
      using "1.IH" [OF True] "1.prems"(1,2) by simp
    then show ?thesis
      using True by (subst shultz_loop.simps) simp
  qed
qed

text \<open>What either routine returns for an \<open>m \<times> n\<close> input is an \<open>n \<times> m\<close> array.\<close>

lemma gen_inv_shape:
  assumes "is_matrix m n original" and "0 < m" and "0 < n"
    and "gen_inv rk original tolerance max_iterations = Some X"
  shows "is_matrix n m X"
proof -
  from assms(4) obtain st
    where l: "gen_loop rk original tolerance max_iterations (init original) = After_Loop st"
      and X: "X = approx st"
    by (auto simp: gen_inv_def gen_run_def gen_result_def Let_def
          split: exit_point.splits if_splits)
  show ?thesis
    unfolding X using assms(1,2,3) is_matrix_init [OF assms(1,2)] l
    by (rule is_matrix_gen_loop)
qed

lemma shultz_inv_shape:
  assumes "is_matrix n n original" and "0 < n"
    and "shultz_inv det original tolerance max_iterations = Some X"
  shows "is_matrix n n X"
proof -
  from assms(3)
  have "X = approx (shultz_loop original tolerance max_iterations (init original))"
    by (auto simp: shultz_inv_def shultz_run_def shultz_result_def Let_def
          split: sum.splits exn.splits if_splits)
  then show ?thesis
    using is_matrix_shultz_loop [OF assms(1,2) is_matrix_init [OF assms(1,2)]] by simp
qed

text \<open>The seed of the fold in \<open>norm_inf\<close> does not show in the norm of an array that has
  a row: the norm is the largest row sum.\<close>

lemma f_max_seed:
  "f_max (f_sum (map f_abs r)) (Fin 0) = f_sum (map f_abs r)"
proof -
  have "nonneg (f_sum (map f_abs r))"
    by (rule nonneg_f_sum) (auto simp: nonneg_f_abs)
  then show ?thesis
    by (cases "f_sum (map f_abs r)") (auto simp: nonneg_def f_max_def)
qed

lemma norm_inf_snoc:
  "norm_inf (A @ [r]) = foldr f_max (map (\<lambda>r. f_sum (map f_abs r)) A) (f_sum (map f_abs r))"
  by (simp add: norm_inf_def f_max_seed)

section \<open>The tests before the loop of \<open>shultz_inv\<close>\<close>

text \<open>
  C8.  For every input that is not square, \<open>shultz_inv\<close> returns \<open>None\<close>, and it does so
  from the \<open>except\<close> branch of line 34, before the loop: no iteration is performed.
\<close>

theorem shultz_non_square:
  "fst (shape original) \<noteq> snd (shape original) \<Longrightarrow>
   shultz_run det original tolerance max_iterations = (None, Before_Loop)
   \<and> shultz_inv det original tolerance max_iterations = None"
  by (simp add: shultz_inv_def shultz_run_def LA_det_def)

theorem shultz_non_square_witness:
  "fst (shape [[Fin 1, Fin 2]]) \<noteq> snd (shape [[Fin 1, Fin 2]])
   \<and> shultz_run det_cofactor [[Fin 1, Fin 2]] (Fin 0.0000001) 1000 = (None, Before_Loop)
   \<and> shultz_inv det_cofactor [[Fin 1, Fin 2]] (Fin 0.0000001) 1000 = None"
  using shultz_non_square [of "[[Fin 1, Fin 2]]" det_cofactor "Fin 0.0000001" 1000]
  by (simp add: shape_def)

text \<open>When \<open>LA.det\<close> returns exactly zero, \<open>shultz_inv\<close> returns \<open>None\<close> from line 30,
  before the loop; for every other value of a square input the loop is reached.\<close>

lemma shultz_det_zero:
  "fst (shape original) = snd (shape original) \<Longrightarrow> det original = Fin 0 \<Longrightarrow>
   shultz_run det original tolerance max_iterations = (None, Before_Loop)"
  by (simp add: shultz_run_def LA_det_def)

lemma shultz_det_nonzero:
  "fst (shape original) = snd (shape original) \<Longrightarrow> \<not> f_eq (det original) (Fin 0) \<Longrightarrow>
   shultz_run det original tolerance max_iterations
   = (shultz_result tolerance (shultz_loop original tolerance max_iterations (init original)),
      After_Loop (shultz_loop original tolerance max_iterations (init original)))"
  by (simp add: shultz_run_def LA_det_def Let_def)

section \<open>A singular matrix that is not rejected\<close>

text \<open>
  The matrix \<open>[[11, 12], [77, 84]]\<close> has determinant \<open>11 \<cdot> 84 - 12 \<cdot> 77 = 0\<close>.  Its
  approximations stay multiples \<open>c \<cdot> original.T\<close> of the transpose: with \<open>c = (1 - e) / 13250\<close>
  one pass of the loop body leads to \<open>c' = (1 - e\<^sup>2) / 13250\<close> and \<open>sigma = \<bar>e\<bar>\<close>.  The
  lemmas up to \<open>singular_step\<close> compute the pass; the products, differences and norms of
  \<open>2 \<times> 2\<close> arrays with small entries do not overflow.
\<close>

lemma overflow_abs: "\<bar>r\<bar> \<le> 1000000000 \<Longrightarrow> overflow r = Fin r"
  by (rule overflow_Fin) simp

lemma prod_bound:
  assumes "\<bar>a\<bar> \<le> 1000" and "\<bar>b\<bar> \<le> 1000"
  shows "\<bar>a * b\<bar> \<le> (1000000 :: real)"
proof -
  have "\<bar>a\<bar> * \<bar>b\<bar> \<le> 1000 * 1000"
    using assms by (intro mult_mono) auto
  then show ?thesis
    by (simp add: abs_mult)
qed

lemma row_col:
  assumes "\<bar>a\<bar> \<le> 1000" "\<bar>b\<bar> \<le> 1000" "\<bar>p\<bar> \<le> 1000" "\<bar>r\<bar> \<le> 1000"
  shows "f_sum (map2 f_mul [Fin a, Fin b] [Fin p, Fin r]) = Fin (a * p + b * r)"
proof -
  have 1: "\<bar>a * p\<bar> \<le> 1000000" and 2: "\<bar>b * r\<bar> \<le> 1000000"
    using assms by (auto intro: prod_bound)
  have "overflow (a * p) = Fin (a * p)" "overflow (b * r) = Fin (b * r)"
    "overflow (a * p + b * r) = Fin (a * p + b * r)"
    using 1 2 by (auto intro!: overflow_abs)
  then show ?thesis
    by (simp add: f_sum_def)
qed

lemma row_col_bound:
  assumes "\<bar>a\<bar> \<le> 1000" "\<bar>b\<bar> \<le> 1000" "\<bar>p\<bar> \<le> 1000" "\<bar>r\<bar> \<le> 1000"
  shows "\<bar>a * p + b * r\<bar> \<le> (10000000 :: real)"
proof -
  have "\<bar>a * p\<bar> \<le> 1000000" and "\<bar>b * r\<bar> \<le> 1000000"
    using assms by (auto intro: prod_bound)
  then show ?thesis
    by simp
qed

lemma dot22:
  assumes "\<bar>a\<bar> \<le> 1000" "\<bar>b\<bar> \<le> 1000" "\<bar>c\<bar> \<le> 1000" "\<bar>d\<bar> \<le> 1000"
    and "\<bar>p\<bar> \<le> 1000" "\<bar>q\<bar> \<le> 1000" "\<bar>r\<bar> \<le> 1000" "\<bar>s\<bar> \<le> 1000"
  shows "dot [[Fin a, Fin b], [Fin c, Fin d]] [[Fin p, Fin q], [Fin r, Fin s]]
         = [[Fin (a * p + b * r), Fin (a * q + b * s)],
            [Fin (c * p + d * r), Fin (c * q + d * s)]]"
proof -
  have "dot [[Fin a, Fin b], [Fin c, Fin d]] [[Fin p, Fin q], [Fin r, Fin s]]
        = [[f_sum (map2 f_mul [Fin a, Fin b] [Fin p, Fin r]),
            f_sum (map2 f_mul [Fin a, Fin b] [Fin q, Fin s])],
           [f_sum (map2 f_mul [Fin c, Fin d] [Fin p, Fin r]),
            f_sum (map2 f_mul [Fin c, Fin d] [Fin q, Fin s])]]"
    by (simp add: dot_def del: f_mul.simps)
  then show ?thesis
    using assms by (simp only: row_col)
qed

lemma overflow_diff:
  assumes "\<bar>a\<bar> \<le> 10000000" and "\<bar>p\<bar> \<le> 10000000"
  shows "overflow (a - p) = Fin (a - p)"
proof -
  have "\<bar>a - p\<bar> \<le> 1000000000"
    using assms by linarith
  then show ?thesis
    by (rule overflow_abs)
qed

lemma subtract22:
  assumes "\<bar>a\<bar> \<le> 10000000" "\<bar>b\<bar> \<le> 10000000" "\<bar>c\<bar> \<le> 10000000" "\<bar>d\<bar> \<le> 10000000"
    and "\<bar>p\<bar> \<le> 10000000" "\<bar>q\<bar> \<le> 10000000" "\<bar>r\<bar> \<le> 10000000" "\<bar>s\<bar> \<le> 10000000"
  shows "subtract [[Fin a, Fin b], [Fin c, Fin d]] [[Fin p, Fin q], [Fin r, Fin s]]
         = [[Fin (a - p), Fin (b - q)], [Fin (c - r), Fin (d - s)]]"
proof -
  have "overflow (a - p) = Fin (a - p)" "overflow (b - q) = Fin (b - q)"
    "overflow (c - r) = Fin (c - r)" "overflow (d - s) = Fin (d - s)"
    by (rule overflow_diff; fact)+
  then show ?thesis
    by (simp add: subtract_def f_sub_def)
qed

lemma row_abs_sum:
  assumes "\<bar>a\<bar> \<le> 100000000" "\<bar>b\<bar> \<le> 100000000"
  shows "f_sum (map f_abs [Fin a, Fin b]) = Fin (\<bar>a\<bar> + \<bar>b\<bar>)"
proof -
  have "overflow \<bar>b\<bar> = Fin \<bar>b\<bar>" "overflow (\<bar>a\<bar> + \<bar>b\<bar>) = Fin (\<bar>a\<bar> + \<bar>b\<bar>)"
    using assms by (auto intro!: overflow_abs)
  then show ?thesis
    by (simp add: f_sum_def)
qed

lemma norm_inf22:
  assumes "\<bar>a\<bar> \<le> 100000000" "\<bar>b\<bar> \<le> 100000000" "\<bar>c\<bar> \<le> 100000000" "\<bar>d\<bar> \<le> 100000000"
  shows "norm_inf [[Fin a, Fin b], [Fin c, Fin d]] = Fin (max (\<bar>a\<bar> + \<bar>b\<bar>) (\<bar>c\<bar> + \<bar>d\<bar>))"
proof -
  have "norm_inf [[Fin a, Fin b], [Fin c, Fin d]]
        = f_max (f_sum (map f_abs [Fin a, Fin b])) (f_max (f_sum (map f_abs [Fin c, Fin d])) (Fin 0))"
    by (simp add: norm_inf_def del: f_abs.simps)
  also have "\<dots> = f_max (Fin (\<bar>a\<bar> + \<bar>b\<bar>)) (f_max (Fin (\<bar>c\<bar> + \<bar>d\<bar>)) (Fin 0))"
    using assms by (simp only: row_abs_sum)
  also have "\<dots> = Fin (max (\<bar>a\<bar> + \<bar>b\<bar>) (\<bar>c\<bar> + \<bar>d\<bar>))"
    by (auto simp: f_max_def max_def)
  finally show ?thesis .
qed


lemma singular_step:
  fixes e :: real
  assumes e: "- 1 \<le> e" "e < 1"
    and c: "c = (1 - e) / 13250" and c': "c' = (1 - e\<^sup>2) / 13250"
    and j': "j' = j + 1"
  shows "shultz_body [[Fin 11, Fin 12], [Fin 77, Fin 84]]
           \<lparr>approx = [[Fin (11 * c), Fin (77 * c)], [Fin (12 * c), Fin (84 * c)]],
            sigma = s, k = j\<rparr>
         = \<lparr>approx = [[Fin (11 * c'), Fin (77 * c')], [Fin (12 * c'), Fin (84 * c')]],
            sigma = Fin \<bar>e\<bar>, k = j'\<rparr>"
proof -
  let ?A = "[[Fin 11, Fin 12], [Fin 77, Fin 84]]"
  let ?X = "[[Fin (11 * c), Fin (77 * c)], [Fin (12 * c), Fin (84 * c)]]"
  let ?X' = "[[Fin (11 * c'), Fin (77 * c')], [Fin (12 * c'), Fin (84 * c')]]"
  have c0: "0 < c" and c1: "c \<le> 1 / 6000"
    using e by (simp_all add: c)
  have e2: "e\<^sup>2 \<le> 1"
    using e by (simp add: abs_square_le_1 abs_le_iff)
  have c'0: "0 \<le> c'"
    using e2 by (simp add: c')
  have "(1 - e\<^sup>2) / 13250 \<le> 1 / 13250"
    by (intro divide_right_mono) auto
  then have "c' \<le> 1 / 13250"
    by (simp only: c')
  also have "(1 / 13250 :: real) \<le> 1 / 6000"
    by simp
  finally have c'1: "c' \<le> 1 / 6000" .
  have d: "c' - c = c * e"
    by (simp add: c c' power2_eq_square field_simps)
  have u: "shultz_unit ?A = [[Fin 2, Fin 0], [Fin 0, Fin 2]]"
    by (simp add: shultz_unit_def shape_def scalar_mul_def eye_def)
  have ax: "dot ?A ?X = [[Fin (11 * (11 * c) + 12 * (12 * c)), Fin (11 * (77 * c) + 12 * (84 * c))],
                        [Fin (77 * (11 * c) + 84 * (12 * c)), Fin (77 * (77 * c) + 84 * (84 * c))]]"
    using c0 c1 by (intro dot22) simp_all
  have b: "subtract (shultz_unit ?A) (dot ?A ?X)
           = [[Fin (2 - 265 * c), Fin (- (1855 * c))], [Fin (- (1855 * c)), Fin (2 - 12985 * c)]]"
    unfolding u ax using c0 c1 by (subst subtract22) simp_all
  have "dot ?X [[Fin (2 - 265 * c), Fin (- (1855 * c))], [Fin (- (1855 * c)), Fin (2 - 12985 * c)]]
        = [[Fin (11 * c * (2 - 265 * c) + 77 * c * (- (1855 * c))),
            Fin (11 * c * (- (1855 * c)) + 77 * c * (2 - 12985 * c))],
           [Fin (12 * c * (2 - 265 * c) + 84 * c * (- (1855 * c))),
            Fin (12 * c * (- (1855 * c)) + 84 * c * (2 - 12985 * c))]]"
    using c0 c1 by (intro dot22) simp_all
  also have "\<dots> = ?X'"
    by (simp add: c c' power2_eq_square field_simps)
  finally have x': "shultz_update ?A ?X = ?X'"
    by (simp only: shultz_update_def Let_def b)
  have "subtract ?X' ?X
        = [[Fin (11 * c' - 11 * c), Fin (77 * c' - 77 * c)],
           [Fin (12 * c' - 12 * c), Fin (84 * c' - 84 * c)]]"
    using c0 c1 c'0 c'1 by (intro subtract22) simp_all
  also have "\<dots> = [[Fin (11 * (c * e)), Fin (77 * (c * e))],
                     [Fin (12 * (c * e)), Fin (84 * (c * e))]]"
    using d by (simp add: algebra_simps)
  finally have s: "subtract ?X' ?X = [[Fin (11 * (c * e)), Fin (77 * (c * e))],
                     [Fin (12 * (c * e)), Fin (84 * (c * e))]]" .
  have ce: "\<bar>c * e\<bar> \<le> 1"
  proof -
    have "\<bar>c\<bar> * \<bar>e\<bar> \<le> 1 * 1"
      using c0 c1 e by (intro mult_mono) auto
    then show ?thesis by (simp add: abs_mult)
  qed
  have "norm_inf (subtract ?X' ?X)
        = Fin (max (\<bar>11 * (c * e)\<bar> + \<bar>77 * (c * e)\<bar>) (\<bar>12 * (c * e)\<bar> + \<bar>84 * (c * e)\<bar>))"
    unfolding s using ce by (intro norm_inf22) (simp_all add: abs_mult)
  also have "\<dots> = Fin (96 * c * \<bar>e\<bar>)"
    using c0 by (simp add: abs_mult max_def)
  finally have num: "norm_inf (subtract ?X' ?X) = Fin (96 * c * \<bar>e\<bar>)" .
  have "norm_inf ?X = Fin (max (\<bar>11 * c\<bar> + \<bar>77 * c\<bar>) (\<bar>12 * c\<bar> + \<bar>84 * c\<bar>))"
    using c0 c1 by (intro norm_inf22) simp_all
  also have "\<dots> = Fin (96 * c)"
    using c0 by (simp add: abs_mult max_def)
  finally have den: "norm_inf ?X = Fin (96 * c)" .
  have "overflow \<bar>e\<bar> = Fin \<bar>e\<bar>"
    using e by (intro overflow_abs) simp
  moreover have "c \<noteq> 0"
    using c0 by simp
  ultimately have q: "f_div (Fin (96 * c * \<bar>e\<bar>)) (Fin (96 * c)) = Fin \<bar>e\<bar>"
    by simp
  show ?thesis
    by (simp only: shultz_body_def Let_def state.select_convs x' num den q j')
qed


lemma singular_init:
  "init [[Fin 11, Fin 12], [Fin 77, Fin 84]]
   = \<lparr>approx = [[Fin (11 * ((1 - (- (4 / 5))) / 13250)), Fin (77 * ((1 - (- (4 / 5))) / 13250))],
                 [Fin (12 * ((1 - (- (4 / 5))) / 13250)), Fin (84 * ((1 - (- (4 / 5))) / 13250))]],
      sigma = Fin 1, k = 0\<rparr>"
  by (simp add: init_def alpha_def norm_fro_def f_sum_def scalar_mul_def)


text \<open>From \<open>e = -0.8\<close> the values of \<open>sigma\<close> are \<open>0.8, 0.8\<^sup>2, 0.8\<^sup>4, \<dots>\<close>; the first below
  \<open>1e-7\<close> is \<open>0.8\<^sup>1\<^sup>2\<^sup>8\<close>, reached in the eighth pass.\<close>

lemma shultz_loop_step:
  assumes "shultz_body original st = st'"
    and "f_ge (sigma st) tolerance" and "k st < max_iterations"
  shows "shultz_loop original tolerance max_iterations st
         = shultz_loop original tolerance max_iterations st'"
  using assms by (subst shultz_loop.simps) simp

lemma four_fifths_power: "0 < n \<Longrightarrow> - 1 \<le> (4 / 5 :: real) ^ n \<and> (4 / 5 :: real) ^ n < 1"
proof
  assume "0 < n"
  have "(0 :: real) \<le> (4 / 5) ^ n"
    by simp
  then show "- 1 \<le> (4 / 5 :: real) ^ n"
    by linarith
  show "(4 / 5 :: real) ^ n < 1"
    using \<open>0 < n\<close> by (simp add: power_less_one_iff)
qed

lemma sigma_above: "(1 / 10000000 :: real) \<le> (4 / 5) ^ 64"
  by (simp add: power_divide)

lemma sigma_below: "(4 / 5 :: real) ^ 128 < 1 / 10000000"
  by (simp add: power_divide)

lemma four_fifths_mono: "n \<le> 64 \<Longrightarrow> (1 / 10000000 :: real) \<le> (4 / 5) ^ n"
proof -
  assume "n \<le> 64"
  then have "(4 / 5 :: real) ^ 64 \<le> (4 / 5) ^ n"
    by (intro power_decreasing) simp_all
  then show ?thesis
    using sigma_above by linarith
qed

lemma singular_loop:
  "shultz_loop [[Fin 11, Fin 12], [Fin 77, Fin 84]] (Fin 0.0000001) 1000
     (init [[Fin 11, Fin 12], [Fin 77, Fin 84]])
   = \<lparr>approx = [[Fin (11 * ((1 - ((4 / 5) ^ 256)) / 13250)), Fin (77 * ((1 - ((4 / 5) ^ 256)) / 13250))], [Fin (12 * ((1 - ((4 / 5) ^ 256)) / 13250)), Fin (84 * ((1 - ((4 / 5) ^ 256)) / 13250))]], sigma = Fin \<bar>((4 / 5) ^ 128)\<bar>, k = 8\<rparr>"
proof -
  let ?A = "[[Fin 11, Fin 12], [Fin 77, Fin 84]]"
  let ?s0 = "\<lparr>approx = [[Fin (11 * ((1 - (- (4 / 5))) / 13250)), Fin (77 * ((1 - (- (4 / 5))) / 13250))], [Fin (12 * ((1 - (- (4 / 5))) / 13250)), Fin (84 * ((1 - (- (4 / 5))) / 13250))]], sigma = Fin 1, k = 0\<rparr>"
  let ?s1 = "\<lparr>approx = [[Fin (11 * ((1 - ((4 / 5) ^ 2)) / 13250)), Fin (77 * ((1 - ((4 / 5) ^ 2)) / 13250))], [Fin (12 * ((1 - ((4 / 5) ^ 2)) / 13250)), Fin (84 * ((1 - ((4 / 5) ^ 2)) / 13250))]], sigma = Fin \<bar>(- (4 / 5))\<bar>, k = 1\<rparr>"
  let ?s2 = "\<lparr>approx = [[Fin (11 * ((1 - ((4 / 5) ^ 4)) / 13250)), Fin (77 * ((1 - ((4 / 5) ^ 4)) / 13250))], [Fin (12 * ((1 - ((4 / 5) ^ 4)) / 13250)), Fin (84 * ((1 - ((4 / 5) ^ 4)) / 13250))]], sigma = Fin \<bar>((4 / 5) ^ 2)\<bar>, k = 2\<rparr>"
  let ?s3 = "\<lparr>approx = [[Fin (11 * ((1 - ((4 / 5) ^ 8)) / 13250)), Fin (77 * ((1 - ((4 / 5) ^ 8)) / 13250))], [Fin (12 * ((1 - ((4 / 5) ^ 8)) / 13250)), Fin (84 * ((1 - ((4 / 5) ^ 8)) / 13250))]], sigma = Fin \<bar>((4 / 5) ^ 4)\<bar>, k = 3\<rparr>"
  let ?s4 = "\<lparr>approx = [[Fin (11 * ((1 - ((4 / 5) ^ 16)) / 13250)), Fin (77 * ((1 - ((4 / 5) ^ 16)) / 13250))], [Fin (12 * ((1 - ((4 / 5) ^ 16)) / 13250)), Fin (84 * ((1 - ((4 / 5) ^ 16)) / 13250))]], sigma = Fin \<bar>((4 / 5) ^ 8)\<bar>, k = 4\<rparr>"
  let ?s5 = "\<lparr>approx = [[Fin (11 * ((1 - ((4 / 5) ^ 32)) / 13250)), Fin (77 * ((1 - ((4 / 5) ^ 32)) / 13250))], [Fin (12 * ((1 - ((4 / 5) ^ 32)) / 13250)), Fin (84 * ((1 - ((4 / 5) ^ 32)) / 13250))]], sigma = Fin \<bar>((4 / 5) ^ 16)\<bar>, k = 5\<rparr>"
  let ?s6 = "\<lparr>approx = [[Fin (11 * ((1 - ((4 / 5) ^ 64)) / 13250)), Fin (77 * ((1 - ((4 / 5) ^ 64)) / 13250))], [Fin (12 * ((1 - ((4 / 5) ^ 64)) / 13250)), Fin (84 * ((1 - ((4 / 5) ^ 64)) / 13250))]], sigma = Fin \<bar>((4 / 5) ^ 32)\<bar>, k = 6\<rparr>"
  let ?s7 = "\<lparr>approx = [[Fin (11 * ((1 - ((4 / 5) ^ 128)) / 13250)), Fin (77 * ((1 - ((4 / 5) ^ 128)) / 13250))], [Fin (12 * ((1 - ((4 / 5) ^ 128)) / 13250)), Fin (84 * ((1 - ((4 / 5) ^ 128)) / 13250))]], sigma = Fin \<bar>((4 / 5) ^ 64)\<bar>, k = 7\<rparr>"
  let ?s8 = "\<lparr>approx = [[Fin (11 * ((1 - ((4 / 5) ^ 256)) / 13250)), Fin (77 * ((1 - ((4 / 5) ^ 256)) / 13250))], [Fin (12 * ((1 - ((4 / 5) ^ 256)) / 13250)), Fin (84 * ((1 - ((4 / 5) ^ 256)) / 13250))]], sigma = Fin \<bar>((4 / 5) ^ 128)\<bar>, k = 8\<rparr>"
  have "init ?A = ?s0"
    by (rule singular_init)
  have b0: "shultz_body ?A ?s0 = ?s1"
  proof -
    have h1: "- 1 \<le> (- (4 / 5 :: real))" "(- (4 / 5 :: real)) < 1"
      by simp_all
    have h2: "((1 - ((4 / 5 :: real) ^ 2)) / 13250) = (1 - (- (4 / 5 :: real))\<^sup>2) / 13250"
      by (simp add: power2_eq_square)
    show ?thesis
      by (rule singular_step [OF h1 _ h2]) simp_all
  qed
  have g0: "f_ge (sigma ?s0) (Fin 0.0000001)"
    by (simp add: f_ge_def)
  have b1: "shultz_body ?A ?s1 = ?s2"
  proof -
    have h1: "- 1 \<le> ((4 / 5 :: real) ^ 2)" "((4 / 5 :: real) ^ 2) < 1"
      using four_fifths_power [of 2] by simp_all
    have h2: "((1 - ((4 / 5 :: real) ^ 4)) / 13250) = (1 - ((4 / 5 :: real) ^ 2)\<^sup>2) / 13250"
      by (simp flip: power_mult)
    show ?thesis
      by (rule singular_step [OF h1 _ h2]) simp_all
  qed
  have g1: "f_ge (sigma ?s1) (Fin 0.0000001)"
    using four_fifths_mono [of 1] by (simp add: f_ge_def)
  have b2: "shultz_body ?A ?s2 = ?s3"
  proof -
    have h1: "- 1 \<le> ((4 / 5 :: real) ^ 4)" "((4 / 5 :: real) ^ 4) < 1"
      using four_fifths_power [of 4] by simp_all
    have h2: "((1 - ((4 / 5 :: real) ^ 8)) / 13250) = (1 - ((4 / 5 :: real) ^ 4)\<^sup>2) / 13250"
      by (simp flip: power_mult)
    show ?thesis
      by (rule singular_step [OF h1 _ h2]) simp_all
  qed
  have g2: "f_ge (sigma ?s2) (Fin 0.0000001)"
    using four_fifths_mono [of 2] by (simp add: f_ge_def)
  have b3: "shultz_body ?A ?s3 = ?s4"
  proof -
    have h1: "- 1 \<le> ((4 / 5 :: real) ^ 8)" "((4 / 5 :: real) ^ 8) < 1"
      using four_fifths_power [of 8] by simp_all
    have h2: "((1 - ((4 / 5 :: real) ^ 16)) / 13250) = (1 - ((4 / 5 :: real) ^ 8)\<^sup>2) / 13250"
      by (simp flip: power_mult)
    show ?thesis
      by (rule singular_step [OF h1 _ h2]) simp_all
  qed
  have g3: "f_ge (sigma ?s3) (Fin 0.0000001)"
    using four_fifths_mono [of 4] by (simp add: f_ge_def)
  have b4: "shultz_body ?A ?s4 = ?s5"
  proof -
    have h1: "- 1 \<le> ((4 / 5 :: real) ^ 16)" "((4 / 5 :: real) ^ 16) < 1"
      using four_fifths_power [of 16] by simp_all
    have h2: "((1 - ((4 / 5 :: real) ^ 32)) / 13250) = (1 - ((4 / 5 :: real) ^ 16)\<^sup>2) / 13250"
      by (simp flip: power_mult)
    show ?thesis
      by (rule singular_step [OF h1 _ h2]) simp_all
  qed
  have g4: "f_ge (sigma ?s4) (Fin 0.0000001)"
    using four_fifths_mono [of 8] by (simp add: f_ge_def)
  have b5: "shultz_body ?A ?s5 = ?s6"
  proof -
    have h1: "- 1 \<le> ((4 / 5 :: real) ^ 32)" "((4 / 5 :: real) ^ 32) < 1"
      using four_fifths_power [of 32] by simp_all
    have h2: "((1 - ((4 / 5 :: real) ^ 64)) / 13250) = (1 - ((4 / 5 :: real) ^ 32)\<^sup>2) / 13250"
      by (simp flip: power_mult)
    show ?thesis
      by (rule singular_step [OF h1 _ h2]) simp_all
  qed
  have g5: "f_ge (sigma ?s5) (Fin 0.0000001)"
    using four_fifths_mono [of 16] by (simp add: f_ge_def)
  have b6: "shultz_body ?A ?s6 = ?s7"
  proof -
    have h1: "- 1 \<le> ((4 / 5 :: real) ^ 64)" "((4 / 5 :: real) ^ 64) < 1"
      using four_fifths_power [of 64] by simp_all
    have h2: "((1 - ((4 / 5 :: real) ^ 128)) / 13250) = (1 - ((4 / 5 :: real) ^ 64)\<^sup>2) / 13250"
      by (simp flip: power_mult)
    show ?thesis
      by (rule singular_step [OF h1 _ h2]) simp_all
  qed
  have g6: "f_ge (sigma ?s6) (Fin 0.0000001)"
    using four_fifths_mono [of 32] by (simp add: f_ge_def)
  have b7: "shultz_body ?A ?s7 = ?s8"
  proof -
    have h1: "- 1 \<le> ((4 / 5 :: real) ^ 128)" "((4 / 5 :: real) ^ 128) < 1"
      using four_fifths_power [of 128] by simp_all
    have h2: "((1 - ((4 / 5 :: real) ^ 256)) / 13250) = (1 - ((4 / 5 :: real) ^ 128)\<^sup>2) / 13250"
      by (simp flip: power_mult)
    show ?thesis
      by (rule singular_step [OF h1 _ h2]) simp_all
  qed
  have g7: "f_ge (sigma ?s7) (Fin 0.0000001)"
    using four_fifths_mono [of 64] by (simp add: f_ge_def)
  have "shultz_loop ?A (Fin 0.0000001) 1000 ?s0 = shultz_loop ?A (Fin 0.0000001) 1000 ?s1"
    using b0 g0 by (rule shultz_loop_step) simp
  also have "\<dots> = shultz_loop ?A (Fin 0.0000001) 1000 ?s2"
    using b1 g1 by (rule shultz_loop_step) simp
  also have "\<dots> = shultz_loop ?A (Fin 0.0000001) 1000 ?s3"
    using b2 g2 by (rule shultz_loop_step) simp
  also have "\<dots> = shultz_loop ?A (Fin 0.0000001) 1000 ?s4"
    using b3 g3 by (rule shultz_loop_step) simp
  also have "\<dots> = shultz_loop ?A (Fin 0.0000001) 1000 ?s5"
    using b4 g4 by (rule shultz_loop_step) simp
  also have "\<dots> = shultz_loop ?A (Fin 0.0000001) 1000 ?s6"
    using b5 g5 by (rule shultz_loop_step) simp
  also have "\<dots> = shultz_loop ?A (Fin 0.0000001) 1000 ?s7"
    using b6 g6 by (rule shultz_loop_step) simp
  also have "\<dots> = shultz_loop ?A (Fin 0.0000001) 1000 ?s8"
    using b7 g7 by (rule shultz_loop_step) simp
  also have "\<dots> = ?s8"
    using sigma_below by (intro shultz_loop_stop) (simp add: f_ge_def)
  finally show ?thesis
    by (simp only: singular_init)
qed

text \<open>
  C9.  The claim fails on the code for \<open>[[11, 12], [77, 84]]\<close>.  An LU factorisation in
  float64 does not return zero for this matrix (with the reciprocal pivot it returns
  \<open>77 \<cdot> 2\<^sup>-\<^sup>4\<^sup>9\<close>), the test \<open>det == 0\<close> is false, and the call with the default tolerance
  and bound goes through eight passes of the loop and returns an approximation, where
  the docstring promises \<open>None\<close> for a singular matrix.  The theorem holds for every value
  other than zero that \<open>LA.det\<close> may return.
\<close>

theorem singular_matrix_iterates:
  assumes "\<not> f_eq (det [[Fin 11, Fin 12], [Fin 77, Fin 84]]) (Fin 0)"
  shows "det_cofactor [[Fin 11, Fin 12], [Fin 77, Fin 84]] = Fin 0
       \<and> shultz_inv det [[Fin 11, Fin 12], [Fin 77, Fin 84]] (Fin 0.0000001) 1000 \<noteq> None
       \<and> (\<exists>st. snd (shultz_run det [[Fin 11, Fin 12], [Fin 77, Fin 84]] (Fin 0.0000001) 1000)
                  = After_Loop st \<and> k st = 8)"
proof -
  let ?A = "[[Fin 11, Fin 12], [Fin 77, Fin 84]]"
  have d: "det_cofactor ?A = Fin 0"
    by (simp add: det_cofactor_def f_sum_def)
  have sq: "fst (shape ?A) = snd (shape ?A)"
    by (simp add: shape_def)
  note r = shultz_det_nonzero [where det = det and original = ?A
      and tolerance = "Fin 0.0000001" and max_iterations = 1000, OF sq assms]
  have "f_lt (Fin \<bar>(4 / 5) ^ 128\<bar>) (Fin 0.0000001)"
    using sigma_below by simp
  then have "shultz_inv det ?A (Fin 0.0000001) 1000 \<noteq> None"
    unfolding shultz_inv_def r singular_loop by (simp add: shultz_result_def)
  moreover have "\<exists>st. snd (shultz_run det ?A (Fin 0.0000001) 1000) = After_Loop st \<and> k st = 8"
    unfolding r singular_loop by simp
  ultimately show ?thesis
    using d by simp
qed

theorem singular_matrix_iterates_witness:
  "\<not> f_eq ((\<lambda>_. Fin (77 / 2 ^ 49)) [[Fin 11, Fin 12], [Fin 77, Fin 84]]) (Fin 0)
   \<and> det_cofactor [[Fin 11, Fin 12], [Fin 77, Fin 84]] = Fin 0
   \<and> shultz_inv (\<lambda>_. Fin (77 / 2 ^ 49)) [[Fin 11, Fin 12], [Fin 77, Fin 84]]
        (Fin 0.0000001) 1000 \<noteq> None
   \<and> (\<exists>st. snd (shultz_run (\<lambda>_. Fin (77 / 2 ^ 49)) [[Fin 11, Fin 12], [Fin 77, Fin 84]]
                    (Fin 0.0000001) 1000) = After_Loop st \<and> k st = 8)"
proof -
  have h: "\<not> f_eq ((\<lambda>_. Fin (77 / 2 ^ 49)) [[Fin 11, Fin 12], [Fin 77, Fin 84]]) (Fin 0)"
    by simp
  show ?thesis
    using h singular_matrix_iterates [where det = "\<lambda>_. Fin (77 / 2 ^ 49)", OF h] by blast
qed

section \<open>A tolerance above the initial \<open>sigma\<close>\<close>

text \<open>
  C10.  \<open>sigma\<close> starts at 1, so with a tolerance strictly greater than 1 the loop test
  fails at once.  \<open>gen_inv\<close> then returns the initial approximation \<open>alpha * original.T\<close>
  as its result for every input, whatever its rank, since the rank is only looked at
  inside the loop; \<open>shultz_inv\<close> returns the initial approximation for every square input
  whose determinant is not zero.  In both cases the loop variables are still the initial
  ones when the call returns.
\<close>

theorem tolerance_above_one:
  assumes "f_lt (Fin 1) tolerance"
  shows "gen_run rk original tolerance max_iterations =
           (Some (scalar_mul (alpha original) (transpose_m original)), After_Loop (init original))
       \<and> (fst (shape original) = snd (shape original) \<and> \<not> f_eq (det original) (Fin 0) \<longrightarrow>
            shultz_run det original tolerance max_iterations =
              (Some (scalar_mul (alpha original) (transpose_m original)), After_Loop (init original)))"
proof -
  have stop: "\<not> (f_ge (sigma (init original)) tolerance \<and> k (init original) < max_iterations)"
    using assms by (simp add: f_ge_one_gt)
  have le: "f_le (Fin 1) tolerance"
    using assms by (rule f_lt_imp_le)
  have X: "approx (init original) = scalar_mul (alpha original) (transpose_m original)"
    by (simp add: init_def)
  have g: "gen_run rk original tolerance max_iterations =
           (Some (scalar_mul (alpha original) (transpose_m original)), After_Loop (init original))"
    by (simp add: gen_run_def gen_loop_stop [OF stop] gen_result_def le X)
  have s: "shultz_loop original tolerance max_iterations (init original) = init original"
    by (rule shultz_loop_stop [OF stop])
  show ?thesis
    using g assms by (simp add: shultz_run_def LA_det_def s shultz_result_def X)
qed

theorem tolerance_above_one_witness:
  "f_lt (Fin 1) (Fin 2)
   \<and> rank_gauss [[Fin 1, Fin 1], [Fin 1, Fin 1]] < m_or_n [[Fin 1, Fin 1], [Fin 1, Fin 1]]
   \<and> gen_inv rank_gauss [[Fin 1, Fin 1], [Fin 1, Fin 1]] (Fin 2) 1000
       = Some [[Fin 0.45, Fin 0.45], [Fin 0.45, Fin 0.45]]
   \<and> shultz_inv det_cofactor [[Fin 2, Fin 0], [Fin 0, Fin 1]] (Fin 2) 1000
       = Some [[Fin 0.72, Fin 0], [Fin 0, Fin 0.36]]"
  using tolerance_above_one [of "Fin 2" rank_gauss "[[Fin 1, Fin 1], [Fin 1, Fin 1]]" 1000]
    tolerance_above_one [of "Fin 2" rank_gauss "[[Fin 2, Fin 0], [Fin 0, Fin 1]]" 1000 det_cofactor]
  by (simp add: gen_inv_def shultz_inv_def init_def alpha_def norm_fro_def f_sum_def
        scalar_mul_def shape_def rank_gauss_def m_or_n_def dimension_def det_cofactor_def
        f_sub_def)

section \<open>No iterations allowed\<close>

text \<open>
  C5, as the code has it.  With \<open>max_iterations = 0\<close> the loop body is never entered and
  no update is applied: the loop variables are the initial ones at the return.  The value
  returned is \<open>None\<close> from \<open>gen_inv\<close> when the tolerance is below 1, and from
  \<open>shultz_inv\<close> when the tolerance is at most 1 (there either from the checks before the
  loop or from the test after it).
\<close>

theorem max_iterations_zero:
  "(f_lt tolerance (Fin 1) \<longrightarrow>
      gen_run rk original tolerance 0 = (None, After_Loop (init original)))
   \<and> (f_le tolerance (Fin 1) \<longrightarrow>
        shultz_inv det original tolerance 0 = None
        \<and> (shultz_run det original tolerance 0 = (None, Before_Loop)
           \<or> shultz_run det original tolerance 0 = (None, After_Loop (init original))))"
proof -
  have stop: "\<not> (f_ge (sigma (init original)) tolerance \<and> k (init original) < 0)"
    by simp
  have g: "gen_run rk original tolerance 0 = (None, After_Loop (init original))"
    if "f_lt tolerance (Fin 1)"
    using f_lt_not_le [OF that]
    by (simp add: gen_run_def gen_loop_stop [OF stop] gen_result_def)
  have s: "shultz_loop original tolerance 0 (init original) = init original"
    by (rule shultz_loop_stop [OF stop])
  have r: "shultz_result tolerance (init original) = None" if "f_le tolerance (Fin 1)"
    using f_le_not_lt [OF that] by (simp add: shultz_result_def)
  have "shultz_inv det original tolerance 0 = None
        \<and> (shultz_run det original tolerance 0 = (None, Before_Loop)
           \<or> shultz_run det original tolerance 0 = (None, After_Loop (init original)))"
    if "f_le tolerance (Fin 1)"
    using r [OF that]
    by (simp add: shultz_inv_def shultz_run_def s split: sum.split exn.split)
  with g show ?thesis by blast
qed

theorem max_iterations_zero_witness:
  "f_lt (Fin 0.0000001) (Fin 1) \<and> f_le (Fin 0.0000001) (Fin 1)
   \<and> gen_run rank_gauss [[Fin 2, Fin 0, Fin 0], [Fin 0, Fin 1, Fin 0]] (Fin 0.0000001) 0
       = (None, After_Loop \<lparr>approx = [[Fin 0.72, Fin 0], [Fin 0, Fin 0.36], [Fin 0, Fin 0]],
                            sigma = Fin 1, k = 0\<rparr>)
   \<and> shultz_inv det_cofactor [[Fin 2, Fin 0], [Fin 0, Fin 1]] (Fin 0.0000001) 0 = None"
  using max_iterations_zero [of "Fin 0.0000001" rank_gauss
      "[[Fin 2, Fin 0, Fin 0], [Fin 0, Fin 1, Fin 0]]"]
    max_iterations_zero [of "Fin 0.0000001" rank_gauss
      "[[Fin 2, Fin 0], [Fin 0, Fin 1]]" det_cofactor]
  by (simp add: init_def alpha_def norm_fro_def f_sum_def scalar_mul_def)

text \<open>
  C5 as stated fails for larger tolerances: with \<open>tolerance = 2\<close> and
  \<open>max_iterations = 0\<close> both routines return the initial approximation, on the two
  example matrices of the source files.
\<close>

theorem max_iterations_zero_counterexample:
  "gen_inv rank_gauss
     [[Fin 2, Fin 1, Fin 1, Fin 3], [Fin 1, Fin 0, Fin 0, Fin (- 1)], [Fin 1, Fin 1, Fin 0, Fin 4]]
     (Fin 2) 0 \<noteq> None
   \<and> shultz_inv det_cofactor
       [[Fin 1, Fin 2, Fin 1], [Fin 0, Fin 1, Fin 0], [Fin 0, Fin 2, Fin 2]] (Fin 2) 0 \<noteq> None"
  by (simp add: gen_inv_def gen_run_def gen_result_def gen_loop.simps f_ge_def
        shultz_inv_def shultz_run_def shultz_result_def shultz_loop.simps LA_det_def shape_def
        det_cofactor_def f_sum_def Let_def)

section \<open>Rank-deficient input to \<open>gen_inv\<close>\<close>

text \<open>
  C2, as the code has it.  The rank is tested inside the loop body, after the counter is
  incremented.  For an input whose rank is below \<open>min(m, n)\<close>, \<open>gen_inv\<close> returns \<open>None\<close>
  whenever the tolerance is below 1, or at most 1 with \<open>max_iterations \<ge> 1\<close>.  For every
  tolerance and bound no update is applied: the call returns either from line 67 in the
  first pass, with the initial approximation untouched and \<open>k = 1\<close>, or after a loop that
  was never entered.
\<close>

theorem rank_deficient:
  assumes "rk original < m_or_n original"
  shows "(f_lt tolerance (Fin 1) \<or> (f_le tolerance (Fin 1) \<and> 0 < max_iterations) \<longrightarrow>
            gen_inv rk original tolerance max_iterations = None)
       \<and> (snd (gen_run rk original tolerance max_iterations) = In_Loop ((init original)\<lparr>k := 1\<rparr>)
          \<or> snd (gen_run rk original tolerance max_iterations) = After_Loop (init original))"
proof (cases "f_ge (sigma (init original)) tolerance \<and> k (init original) < max_iterations")
  case True
  have "rk original \<noteq> m_or_n original"
    using assms by simp
  then have "gen_loop rk original tolerance max_iterations (init original)
             = In_Loop ((init original)\<lparr>k := 1\<rparr>)"
    using True gen_loop_rank_fail [of rk original "init original" tolerance max_iterations]
    by simp
  then show ?thesis
    by (simp add: gen_inv_def gen_run_def gen_result_def)
next
  case False
  then have l: "gen_loop rk original tolerance max_iterations (init original)
                = After_Loop (init original)"
    by (rule gen_loop_stop)
  have "\<not> f_le (Fin 1) tolerance"
    if "f_lt tolerance (Fin 1) \<or> (f_le tolerance (Fin 1) \<and> 0 < max_iterations)"
    using that False f_lt_not_le [of tolerance "Fin 1"] by (auto simp: f_ge_def)
  then show ?thesis
    by (auto simp add: gen_inv_def gen_run_def gen_result_def l)
qed

theorem rank_deficient_witness:
  "rank_gauss [[Fin 1, Fin 1], [Fin 1, Fin 1]] < m_or_n [[Fin 1, Fin 1], [Fin 1, Fin 1]]
   \<and> f_lt (Fin 0.0000001) (Fin 1)
   \<and> gen_inv rank_gauss [[Fin 1, Fin 1], [Fin 1, Fin 1]] (Fin 0.0000001) 1000 = None
   \<and> snd (gen_run rank_gauss [[Fin 1, Fin 1], [Fin 1, Fin 1]] (Fin 0.0000001) 1000)
       = In_Loop \<lparr>approx = [[Fin 0.45, Fin 0.45], [Fin 0.45, Fin 0.45]], sigma = Fin 1, k = 1\<rparr>"
proof -
  have h: "rank_gauss [[Fin 1, Fin 1], [Fin 1, Fin 1]] < m_or_n [[Fin 1, Fin 1], [Fin 1, Fin 1]]"
    by (simp add: rank_gauss_def m_or_n_def dimension_def shape_def f_sub_def)
  have i: "init [[Fin 1, Fin 1], [Fin 1, Fin 1]]
           = \<lparr>approx = [[Fin 0.45, Fin 0.45], [Fin 0.45, Fin 0.45]], sigma = Fin 1, k = 0\<rparr>"
    by (simp add: init_def alpha_def norm_fro_def f_sum_def scalar_mul_def)
  have l: "gen_loop rank_gauss [[Fin 1, Fin 1], [Fin 1, Fin 1]] (Fin 0.0000001) 1000
             (init [[Fin 1, Fin 1], [Fin 1, Fin 1]])
           = In_Loop ((init [[Fin 1, Fin 1], [Fin 1, Fin 1]])\<lparr>k := 1\<rparr>)"
    using h gen_loop_rank_fail [of rank_gauss "[[Fin 1, Fin 1], [Fin 1, Fin 1]]"
        "init [[Fin 1, Fin 1], [Fin 1, Fin 1]]" "Fin 0.0000001" 1000]
    by (simp add: f_ge_def)
  have "snd (gen_run rank_gauss [[Fin 1, Fin 1], [Fin 1, Fin 1]] (Fin 0.0000001) 1000)
       = In_Loop \<lparr>approx = [[Fin 0.45, Fin 0.45], [Fin 0.45, Fin 0.45]], sigma = Fin 1, k = 1\<rparr>"
    unfolding gen_run_def l by (simp add: i Let_def)
  then show ?thesis
    using h rank_deficient [of rank_gauss "[[Fin 1, Fin 1], [Fin 1, Fin 1]]" "Fin 0.0000001" 1000]
    by simp
qed

text \<open>
  C2 as stated fails when the loop is not entered: with \<open>tolerance = 2\<close> the rank is never
  looked at, and the matrix of ones, of rank 1, gets its scaled transpose back as result.
\<close>

theorem rank_deficient_counterexample:
  "rank_gauss [[Fin 1, Fin 1], [Fin 1, Fin 1]] < m_or_n [[Fin 1, Fin 1], [Fin 1, Fin 1]]
   \<and> gen_inv rank_gauss [[Fin 1, Fin 1], [Fin 1, Fin 1]] (Fin 2) 1000
       = Some [[Fin 0.45, Fin 0.45], [Fin 0.45, Fin 0.45]]"
  by (simp add: rank_gauss_def m_or_n_def dimension_def shape_def f_sub_def
        gen_inv_def gen_run_def gen_result_def gen_loop.simps f_ge_def
        init_def alpha_def norm_fro_def f_sum_def scalar_mul_def)

section \<open>Leaving the loop at the bound with \<open>sigma\<close> equal to the tolerance\<close>

text \<open>After the loop, \<open>shultz_inv\<close> returns \<open>None\<close> whenever \<open>sigma >= tolerance\<close>;
  \<open>gen_inv\<close> does so only when \<open>sigma > tolerance\<close>, and returns the approximation when
  the two are equal.\<close>

lemma shultz_result_exhausted:
  "f_ge (sigma st) tolerance \<Longrightarrow> shultz_result tolerance st = None"
  by (simp add: shultz_result_def f_ge_not_lt)

lemma gen_result_exhausted:
  "f_lt tolerance (sigma st) \<Longrightarrow> gen_result tolerance (After_Loop st) = None"
  by (simp add: gen_result_def f_lt_not_le)

lemma gen_result_boundary:
  "sigma st = Fin t \<Longrightarrow> gen_result (Fin t) (After_Loop st) = Some (approx st)"
  by (simp add: gen_result_def)

text \<open>
  C3.  The claim holds for \<open>shultz_inv\<close> and fails for \<open>gen_inv\<close> at the boundary.  On the
  \<open>1 \<times> 1\<close> matrix \<open>[[1]]\<close>: with \<open>tolerance = 1\<close> and \<open>max_iterations = 0\<close> the loop is left
  with \<open>k = max_iterations\<close> and \<open>sigma = 1 = tolerance\<close>; with \<open>tolerance = 0.8\<close> and
  \<open>max_iterations = 1\<close> it is left after one pass with \<open>k = 1\<close> and \<open>sigma = 0.8\<close>.  Both times
  \<open>gen_inv\<close> returns the approximation and \<open>shultz_inv\<close> returns \<open>None\<close>.
\<close>

theorem boundary_sigma_equals_tolerance:
  "gen_run rank_gauss [[Fin 1]] (Fin 1) 0
     = (Some [[Fin 1.8]], After_Loop \<lparr>approx = [[Fin 1.8]], sigma = Fin 1, k = 0\<rparr>)
   \<and> shultz_run det_cofactor [[Fin 1]] (Fin 1) 0
     = (None, After_Loop \<lparr>approx = [[Fin 1.8]], sigma = Fin 1, k = 0\<rparr>)
   \<and> gen_run rank_gauss [[Fin 1]] (Fin 0.8) 1
     = (Some [[Fin 0.36]], After_Loop \<lparr>approx = [[Fin 0.36]], sigma = Fin 0.8, k = 1\<rparr>)
   \<and> shultz_run det_cofactor [[Fin 1]] (Fin 0.8) 1
     = (None, After_Loop \<lparr>approx = [[Fin 0.36]], sigma = Fin 0.8, k = 1\<rparr>)"
  by (simp add: gen_run_def gen_result_def gen_loop.simps gen_body_def measure_step_def
        gen_update_row_def gen_update_column_def gen_unit_def m_or_n_def row_or_column_def
        dimension_def rank_gauss_def det_cofactor_def
        shultz_run_def shultz_result_def shultz_loop.simps shultz_body_def shultz_update_def
        shultz_unit_def LA_det_def
        init_def alpha_def norm_fro_def norm_inf_def f_sum_def f_max_def f_ge_def f_sub_def
        scalar_mul_def dot_def subtract_def eye_def shape_def Let_def)

section \<open>The update rules of \<open>gen_inv\<close>\<close>

text \<open>With more rows than columns the first branch of the loop body is taken, otherwise
  the second, provided the rank equals the smaller dimension.\<close>

lemma gen_body_column:
  assumes "shape original = (m, n)" and "n < m" and "rk original = n"
  shows "gen_body rk original st = After_Loop (measure_step st
           (dot (subtract (scalar_mul (Fin 2) (eye n)) (dot (approx st) original)) (approx st)))"
  using assms
  by (simp add: gen_body_def row_or_column_def m_or_n_def dimension_def
        gen_update_column_def gen_unit_def Let_def)

lemma gen_body_row:
  assumes "shape original = (m, n)" and "m \<le> n" and "rk original = m"
  shows "gen_body rk original st = After_Loop (measure_step st
           (dot (approx st) (subtract (scalar_mul (Fin 2) (eye m)) (dot original (approx st)))))"
  using assms
  by (simp add: gen_body_def row_or_column_def m_or_n_def dimension_def
        gen_update_row_def gen_unit_def Let_def)

text \<open>
  C1.  Let the input have shape \<open>(m, n)\<close>.  If \<open>m > n\<close> and the rank is \<open>n\<close>, a pass through
  the loop body replaces the approximation \<open>X\<close> by \<open>(2I - X\<cdot>A)\<cdot>X\<close> with the \<open>n \<times> n\<close>
  identity; if \<open>m < n\<close> and the rank is \<open>m\<close>, by \<open>X\<cdot>(2I - A\<cdot>X)\<close> with the \<open>m \<times> m\<close>
  identity.  Whenever the loop test holds, the loop goes on from the state with that
  approximation.
\<close>

theorem gen_inv_update_rule:
  assumes "shape original = (m, n)"
  shows "(n < m \<and> rk original = n \<longrightarrow>
           (\<exists>st'. gen_body rk original st = After_Loop st'
              \<and> approx st' =
                  dot (subtract (scalar_mul (Fin 2) (eye n)) (dot (approx st) original)) (approx st)
              \<and> (f_ge (sigma st) tolerance \<and> k st < max_iterations \<longrightarrow>
                   gen_loop rk original tolerance max_iterations st
                   = gen_loop rk original tolerance max_iterations st')))
       \<and> (m < n \<and> rk original = m \<longrightarrow>
           (\<exists>st'. gen_body rk original st = After_Loop st'
              \<and> approx st' =
                  dot (approx st) (subtract (scalar_mul (Fin 2) (eye m)) (dot original (approx st)))
              \<and> (f_ge (sigma st) tolerance \<and> k st < max_iterations \<longrightarrow>
                   gen_loop rk original tolerance max_iterations st
                   = gen_loop rk original tolerance max_iterations st')))"
proof (intro conjI impI)
  assume c: "n < m \<and> rk original = n"
  let ?X = "dot (subtract (scalar_mul (Fin 2) (eye n)) (dot (approx st) original)) (approx st)"
  have b: "gen_body rk original st = After_Loop (measure_step st ?X)"
    using assms c by (simp add: gen_body_column)
  show "\<exists>st'. gen_body rk original st = After_Loop st' \<and> approx st' = ?X
          \<and> (f_ge (sigma st) tolerance \<and> k st < max_iterations \<longrightarrow>
               gen_loop rk original tolerance max_iterations st
               = gen_loop rk original tolerance max_iterations st')"
    using b gen_loop_continue [OF b] by (intro exI [of _ "measure_step st ?X"]) simp
next
  assume c: "m < n \<and> rk original = m"
  let ?X = "dot (approx st) (subtract (scalar_mul (Fin 2) (eye m)) (dot original (approx st)))"
  have b: "gen_body rk original st = After_Loop (measure_step st ?X)"
    using assms c by (simp add: gen_body_row)
  show "\<exists>st'. gen_body rk original st = After_Loop st' \<and> approx st' = ?X
          \<and> (f_ge (sigma st) tolerance \<and> k st < max_iterations \<longrightarrow>
               gen_loop rk original tolerance max_iterations st
               = gen_loop rk original tolerance max_iterations st')"
    using b gen_loop_continue [OF b] by (intro exI [of _ "measure_step st ?X"]) simp
qed

theorem gen_inv_update_rule_witness:
  "shape [[Fin 2, Fin 0], [Fin 0, Fin 1], [Fin 0, Fin 0]] = (3, 2)
   \<and> rank_gauss [[Fin 2, Fin 0], [Fin 0, Fin 1], [Fin 0, Fin 0]] = 2
   \<and> gen_body rank_gauss [[Fin 2, Fin 0], [Fin 0, Fin 1], [Fin 0, Fin 0]]
        \<lparr>approx = [[Fin 0.72, Fin 0, Fin 0], [Fin 0, Fin 0.36, Fin 0]], sigma = Fin 1, k = 0\<rparr>
      = After_Loop \<lparr>approx = [[Fin 0.4032, Fin 0, Fin 0], [Fin 0, Fin 0.5904, Fin 0]],
                    sigma = Fin 0.44, k = 1\<rparr>
   \<and> shape [[Fin 2, Fin 0, Fin 0], [Fin 0, Fin 1, Fin 0]] = (2, 3)
   \<and> rank_gauss [[Fin 2, Fin 0, Fin 0], [Fin 0, Fin 1, Fin 0]] = 2
   \<and> gen_body rank_gauss [[Fin 2, Fin 0, Fin 0], [Fin 0, Fin 1, Fin 0]]
        \<lparr>approx = [[Fin 0.72, Fin 0], [Fin 0, Fin 0.36], [Fin 0, Fin 0]], sigma = Fin 1, k = 0\<rparr>
      = After_Loop \<lparr>approx = [[Fin 0.4032, Fin 0], [Fin 0, Fin 0.5904], [Fin 0, Fin 0]],
                    sigma = Fin 0.44, k = 1\<rparr>"
proof -
  let ?A = "[[Fin 2, Fin 0], [Fin 0, Fin 1], [Fin 0, Fin 0]]"
  let ?B = "[[Fin 2, Fin 0, Fin 0], [Fin 0, Fin 1, Fin 0]]"
  let ?s = "\<lparr>approx = [[Fin 0.72, Fin 0, Fin 0], [Fin 0, Fin 0.36, Fin 0]], sigma = Fin 1, k = 0\<rparr>"
  let ?t = "\<lparr>approx = [[Fin 0.72, Fin 0], [Fin 0, Fin 0.36], [Fin 0, Fin 0]], sigma = Fin 1, k = 0\<rparr>"
  have sA: "shape ?A = (3, 2)" and sB: "shape ?B = (2, 3)"
    by (simp_all add: shape_def)
  have rA: "rank_gauss ?A = 2" and rB: "rank_gauss ?B = 2"
    by (simp_all add: rank_gauss_def shape_def f_sub_def)
  have cA: "approx ?s = [[Fin 0.72, Fin 0, Fin 0], [Fin 0, Fin 0.36, Fin 0]]"
    and cB: "approx ?t = [[Fin 0.72, Fin 0], [Fin 0, Fin 0.36], [Fin 0, Fin 0]]"
    by simp_all
  from gen_inv_update_rule [OF sA, of rank_gauss ?s "Fin 0.0000001" 1000] rA
  obtain st' where a: "gen_body rank_gauss ?A ?s = After_Loop st'"
    and a': "approx st' = dot (subtract (scalar_mul (Fin 2) (eye 2)) (dot (approx ?s) ?A)) (approx ?s)"
    by auto
  from gen_inv_update_rule [OF sB, of rank_gauss ?t "Fin 0.0000001" 1000] rB
  obtain st'' where b: "gen_body rank_gauss ?B ?t = After_Loop st''"
    and b': "approx st'' = dot (approx ?t) (subtract (scalar_mul (Fin 2) (eye 2)) (dot ?B (approx ?t)))"
    by auto
  have a2: "approx st' = [[Fin 0.4032, Fin 0, Fin 0], [Fin 0, Fin 0.5904, Fin 0]]"
    unfolding a' cA by (simp add: np_defs numeral_2_eq_2)
  have b2: "approx st'' = [[Fin 0.4032, Fin 0], [Fin 0, Fin 0.5904], [Fin 0, Fin 0]]"
    unfolding b' cB by (simp add: np_defs numeral_2_eq_2)
  have a3: "sigma st' = Fin 0.44 \<and> k st' = 1"
    using a a2 rA sA
    by (auto simp add: gen_body_def measure_step_def Let_def np_defs split: if_splits)
  have b3: "sigma st'' = Fin 0.44 \<and> k st'' = 1"
    using b b2 rB sB
    by (auto simp add: gen_body_def measure_step_def Let_def np_defs split: if_splits)
  have "st' = \<lparr>approx = [[Fin 0.4032, Fin 0, Fin 0], [Fin 0, Fin 0.5904, Fin 0]],
                    sigma = Fin 0.44, k = 1\<rparr>"
    using a2 a3 by (cases st') simp
  moreover have "st'' = \<lparr>approx = [[Fin 0.4032, Fin 0], [Fin 0, Fin 0.5904], [Fin 0, Fin 0]],
                    sigma = Fin 0.44, k = 1\<rparr>"
    using b2 b3 by (cases st'') simp
  ultimately show ?thesis
    using sA sB rA rB a b by simp
qed

section \<open>The Schultz update and the row-rank update\<close>

text \<open>
  C7.  For a square input the update of \<open>shultz_inv\<close>, \<open>X\<cdot>(2I - A\<cdot>X)\<close> with the \<open>n \<times> n\<close>
  identity, is the update of the second branch of \<open>gen_inv\<close>, for every approximation
  \<open>X\<close>; the two loop bodies compute the same next state, and when the rank equals \<open>n\<close>
  the body of \<open>gen_inv\<close> takes that branch.
\<close>

theorem shultz_update_is_row_update:
  assumes "fst (shape original) = snd (shape original)"
  shows "shultz_update original X = gen_update_row original X
       \<and> shultz_update original X =
           dot X (subtract (scalar_mul (Fin 2) (eye (fst (shape original)))) (dot original X))
       \<and> shultz_body original st = measure_step st (gen_update_row original (approx st))
       \<and> (rk original = fst (shape original) \<longrightarrow>
            gen_body rk original st = After_Loop (shultz_body original st))"
  using assms
  by (simp add: shultz_update_def gen_update_row_def shultz_unit_def gen_unit_def m_or_n_def
        dimension_def shultz_body_def measure_step_def gen_body_def row_or_column_def Let_def)

theorem shultz_update_is_row_update_witness:
  "fst (shape [[Fin 2, Fin 0], [Fin 0, Fin 1]]) = snd (shape [[Fin 2, Fin 0], [Fin 0, Fin 1]])
   \<and> rank_gauss [[Fin 2, Fin 0], [Fin 0, Fin 1]] = fst (shape [[Fin 2, Fin 0], [Fin 0, Fin 1]])
   \<and> shultz_update [[Fin 2, Fin 0], [Fin 0, Fin 1]] [[Fin 0.72, Fin 0], [Fin 0, Fin 0.36]]
       = [[Fin 0.4032, Fin 0], [Fin 0, Fin 0.5904]]
   \<and> gen_update_row [[Fin 2, Fin 0], [Fin 0, Fin 1]] [[Fin 0.72, Fin 0], [Fin 0, Fin 0.36]]
       = [[Fin 0.4032, Fin 0], [Fin 0, Fin 0.5904]]
   \<and> gen_body rank_gauss [[Fin 2, Fin 0], [Fin 0, Fin 1]]
        \<lparr>approx = [[Fin 0.72, Fin 0], [Fin 0, Fin 0.36]], sigma = Fin 1, k = 0\<rparr>
      = After_Loop (shultz_body [[Fin 2, Fin 0], [Fin 0, Fin 1]]
          \<lparr>approx = [[Fin 0.72, Fin 0], [Fin 0, Fin 0.36]], sigma = Fin 1, k = 0\<rparr>)"
proof -
  let ?Q = "[[Fin 2, Fin 0], [Fin 0, Fin 1]]"
  let ?X = "[[Fin 0.72, Fin 0], [Fin 0, Fin 0.36]]"
  have sq: "fst (shape ?Q) = snd (shape ?Q)"
    by (simp add: shape_def)
  have r: "rank_gauss ?Q = fst (shape ?Q)"
    by (simp add: rank_gauss_def shape_def f_sub_def)
  have u: "shultz_update ?Q ?X = [[Fin 0.4032, Fin 0], [Fin 0, Fin 0.5904]]"
    by (simp add: shultz_update_def shultz_unit_def shape_def np_defs Let_def)
  show ?thesis
    using sq r u shultz_update_is_row_update [OF sq, where X = ?X and rk = rank_gauss
        and st = "\<lparr>approx = ?X, sigma = Fin 1, k = 0\<rparr>"]
    by simp
qed

section \<open>A previous approximation of norm zero\<close>

text \<open>A norm is a maximum of sums of absolute values, so it is zero only when every entry
  is zero.\<close>

lemma overflow_eq_Fin: "overflow r = Fin t \<Longrightarrow> r = t"
  using overflow_cases [of r] by auto

lemma f_add_eq_zero:
  "nonneg a \<Longrightarrow> nonneg b \<Longrightarrow> f_add a b = Fin 0 \<Longrightarrow> a = Fin 0 \<and> b = Fin 0"
  by (cases a; cases b) (auto simp: nonneg_def dest!: overflow_eq_Fin)

lemma f_abs_eq_zero: "f_abs x = Fin 0 \<Longrightarrow> x = Fin 0"
  by (cases x) auto

lemma f_sum_abs_eq_zero:
  "f_sum (map f_abs r) = Fin 0 \<Longrightarrow> x \<in> set r \<Longrightarrow> x = Fin 0"
proof (induction r)
  case Nil
  then show ?case by simp
next
  case (Cons y r)
  have t: "nonneg (f_sum (map f_abs r))"
    by (rule nonneg_f_sum) (auto simp: nonneg_f_abs)
  have "f_add (f_abs y) (f_sum (map f_abs r)) = Fin 0"
    using Cons.prems(1) by (simp add: f_sum_def)
  then have "f_abs y = Fin 0 \<and> f_sum (map f_abs r) = Fin 0"
    using nonneg_f_abs t by (rule_tac f_add_eq_zero)
  then show ?case
    using Cons by (auto dest: f_abs_eq_zero)
qed

lemma nonneg_f_max: "nonneg a \<Longrightarrow> nonneg b \<Longrightarrow> nonneg (f_max a b)"
  by (cases a; cases b) (simp_all add: nonneg_def f_max_def)

lemma f_max_eq_zero:
  "nonneg a \<Longrightarrow> nonneg b \<Longrightarrow> f_max a b = Fin 0 \<Longrightarrow> a = Fin 0 \<and> b = Fin 0"
  by (cases a; cases b) (auto simp: nonneg_def f_max_def split: if_splits)

lemma nonneg_norm_inf: "nonneg (norm_inf X)"
proof (induction X)
  case Nil
  then show ?case by (simp add: norm_inf_def nonneg_def)
next
  case (Cons y X)
  have "nonneg (f_sum (map f_abs y))"
    by (rule nonneg_f_sum) (auto simp: nonneg_f_abs)
  then have "nonneg (f_max (f_sum (map f_abs y)) (norm_inf X))"
    using Cons by (rule nonneg_f_max)
  then show ?case by (simp add: norm_inf_def)
qed

lemma norm_inf_eq_zero:
  "norm_inf X = Fin 0 \<Longrightarrow> r \<in> set X \<Longrightarrow> x \<in> set r \<Longrightarrow> x = Fin 0"
proof (induction X)
  case Nil
  then show ?case by simp
next
  case (Cons y X)
  have h: "nonneg (f_sum (map f_abs y))"
    by (rule nonneg_f_sum) (auto simp: nonneg_f_abs)
  have "f_max (f_sum (map f_abs y)) (norm_inf X) = Fin 0"
    using Cons.prems(1) by (simp add: norm_inf_def)
  then have "f_sum (map f_abs y) = Fin 0 \<and> norm_inf X = Fin 0"
    using h nonneg_norm_inf by (rule_tac f_max_eq_zero)
  then show ?case
    using Cons by (auto dest: f_sum_abs_eq_zero)
qed

lemma zn_f_add: "zero_or_nan a \<Longrightarrow> zero_or_nan b \<Longrightarrow> zero_or_nan (f_add a b)"
  by (auto simp: zero_or_nan_def)

lemma zn_f_sum: "(\<And>x. x \<in> set xs \<Longrightarrow> zero_or_nan x) \<Longrightarrow> zero_or_nan (f_sum xs)"
  by (induction xs) (simp_all add: f_sum_def zn_f_add, simp add: zero_or_nan_def)

lemma zn_f_mul_left: "zero_or_nan (f_mul (Fin 0) y)"
  by (cases y) (simp_all add: zero_or_nan_def)

lemma zn_f_mul_right: "zero_or_nan (f_mul y (Fin 0))"
  by (cases y) (simp_all add: zero_or_nan_def)

lemma zn_f_sub: "zero_or_nan a \<Longrightarrow> zero_or_nan b \<Longrightarrow> zero_or_nan (f_sub a b)"
  by (auto simp: zero_or_nan_def f_sub_def)

lemma zn_f_abs: "zero_or_nan a \<Longrightarrow> zero_or_nan (f_abs a)"
  by (auto simp: zero_or_nan_def)

lemma zn_f_max: "zero_or_nan a \<Longrightarrow> zero_or_nan b \<Longrightarrow> zero_or_nan (f_max a b)"
  by (auto simp: zero_or_nan_def f_max_def)

lemma f_div_zn_zero: "zero_or_nan a \<Longrightarrow> f_div a (Fin 0) = NaN"
  by (auto simp: zero_or_nan_def)

lemma transpose_m_entries:
  "c \<in> set (transpose_m X) \<Longrightarrow> x \<in> set c \<Longrightarrow> \<exists>r\<in>set X. x \<in> set r"
proof (induction X arbitrary: c rule: transpose_m.induct)
  case 1
  then show ?case by simp
next
  case (2 r)
  then show ?case by auto
next
  case (3 r v va)
  from "3.prems"(1) obtain a t where "(a, t) \<in> set (zip r (transpose_m (v # va)))" "c = a # t"
    by auto
  then have "a \<in> set r" "t \<in> set (transpose_m (v # va))"
    by (auto dest: set_zip_leftD set_zip_rightD)
  then show ?case
    using "3.IH" [of t] "3.prems"(2) \<open>c = a # t\<close> by auto
qed

lemma zn_dot_left:
  assumes "\<And>r x. r \<in> set X \<Longrightarrow> x \<in> set r \<Longrightarrow> x = Fin 0"
    and "r \<in> set (dot X B)" and "x \<in> set r"
  shows "zero_or_nan x"
proof -
  from assms(2,3) obtain r' c where r': "r' \<in> set X" and x: "x = f_sum (map2 f_mul r' c)"
    by (auto simp: dot_def)
  have "zero_or_nan y" if "y \<in> set (map2 f_mul r' c)" for y
  proof -
    from that obtain a b where "(a, b) \<in> set (zip r' c)" "y = f_mul a b"
      by auto
    then have "a = Fin 0"
      using assms(1) [OF r'] by (auto dest: set_zip_leftD)
    then show ?thesis
      using \<open>y = f_mul a b\<close> by (simp add: zn_f_mul_left)
  qed
  then show ?thesis
    unfolding x by (rule zn_f_sum)
qed

lemma zn_dot_right:
  assumes "\<And>r x. r \<in> set X \<Longrightarrow> x \<in> set r \<Longrightarrow> x = Fin 0"
    and "r \<in> set (dot B X)" and "x \<in> set r"
  shows "zero_or_nan x"
proof -
  from assms(2,3) obtain r' c where c: "c \<in> set (transpose_m X)"
    and x: "x = f_sum (map2 f_mul r' c)"
    by (auto simp: dot_def)
  have "zero_or_nan y" if "y \<in> set (map2 f_mul r' c)" for y
  proof -
    from that obtain a b where ab: "(a, b) \<in> set (zip r' c)" "y = f_mul a b"
      by auto
    then have "b \<in> set c"
      by (auto dest: set_zip_rightD)
    then have "b = Fin 0"
      using transpose_m_entries [OF c] assms(1) by blast
    then show ?thesis
      using ab by (simp add: zn_f_mul_right)
  qed
  then show ?thesis
    unfolding x by (rule zn_f_sum)
qed

lemma zn_subtract:
  assumes "\<And>r x. r \<in> set A \<Longrightarrow> x \<in> set r \<Longrightarrow> zero_or_nan x"
    and "\<And>r x. r \<in> set B \<Longrightarrow> x \<in> set r \<Longrightarrow> zero_or_nan x"
    and "r \<in> set (subtract A B)" and "x \<in> set r"
  shows "zero_or_nan x"
proof -
  from assms(3) obtain ra rb where "(ra, rb) \<in> set (zip A B)" and r: "r = map2 f_sub ra rb"
    by (auto simp: subtract_def)
  then have ra: "ra \<in> set A" and rb: "rb \<in> set B"
    by (auto dest: set_zip_leftD set_zip_rightD)
  from assms(4) r obtain a b where "(a, b) \<in> set (zip ra rb)" and x: "x = f_sub a b"
    by auto
  then have "a \<in> set ra" "b \<in> set rb"
    by (auto dest: set_zip_leftD set_zip_rightD)
  then show ?thesis
    unfolding x using assms(1) [OF ra] assms(2) [OF rb] by (simp add: zn_f_sub)
qed

lemma zn_norm_inf:
  "(\<And>r x. r \<in> set A \<Longrightarrow> x \<in> set r \<Longrightarrow> zero_or_nan x) \<Longrightarrow> zero_or_nan (norm_inf A)"
proof (induction A)
  case Nil
  then show ?case by (simp add: norm_inf_def zero_or_nan_def)
next
  case (Cons y A)
  have "zero_or_nan (f_sum (map f_abs y))"
    by (rule zn_f_sum) (auto intro!: zn_f_abs Cons.prems [of y])
  moreover have "zero_or_nan (norm_inf A)"
    by (rule Cons.IH) (rule Cons.prems, simp_all)
  ultimately show ?case
    by (simp add: norm_inf_def zn_f_max)
qed

text \<open>The new \<open>sigma\<close> after any update of an approximation of norm zero whose result
  has only zeros and NaNs.\<close>

lemma sigma_of_zero_norm:
  assumes z: "norm_inf X = Fin 0"
    and n: "\<And>r x. r \<in> set X' \<Longrightarrow> x \<in> set r \<Longrightarrow> zero_or_nan x"
  shows "f_div (norm_inf (subtract X' X)) (norm_inf X) = NaN"
proof -
  have "zero_or_nan x" if "r \<in> set X" "x \<in> set r" for r x
    using norm_inf_eq_zero [OF z that] by (simp add: zero_or_nan_def)
  then have "zero_or_nan (norm_inf (subtract X' X))"
    using n by (intro zn_norm_inf) (rule zn_subtract)
  then show ?thesis
    unfolding z by (rule f_div_zn_zero)
qed


lemma sigma_measure_step_zero_norm:
  assumes "norm_inf (approx st) = Fin 0"
    and "\<And>r x. r \<in> set X' \<Longrightarrow> x \<in> set r \<Longrightarrow> zero_or_nan x"
  shows "sigma (measure_step st X') = NaN"
  using sigma_of_zero_norm [OF assms] by (simp add: measure_step_def Let_def)

lemma shultz_body_measure_step:
  "shultz_body original st = measure_step st (shultz_update original (approx st))"
  by (simp add: shultz_body_def measure_step_def Let_def)

lemma sigma_shultz_body_zero_norm:
  assumes "norm_inf (approx st) = Fin 0"
  shows "sigma (shultz_body original st) = NaN"
  unfolding shultz_body_measure_step
proof (rule sigma_measure_step_zero_norm [OF assms])
  fix r x
  assume "r \<in> set (shultz_update original (approx st))" "x \<in> set r"
  then show "zero_or_nan x"
    unfolding shultz_update_def Let_def
    by (rule zn_dot_left [rotated]) (rule norm_inf_eq_zero [OF assms])
qed

lemma sigma_gen_body_zero_norm:
  assumes "norm_inf (approx st) = Fin 0" and "gen_body rk original st = After_Loop st'"
  shows "sigma st' = NaN"
proof -
  have c: "sigma (measure_step st (gen_update_column original (approx st))) = NaN"
  proof (rule sigma_measure_step_zero_norm [OF assms(1)])
    fix r x
    assume "r \<in> set (gen_update_column original (approx st))" "x \<in> set r"
    then show "zero_or_nan x"
      unfolding gen_update_column_def Let_def
      by (rule zn_dot_right [rotated]) (rule norm_inf_eq_zero [OF assms(1)])
  qed
  have r: "sigma (measure_step st (gen_update_row original (approx st))) = NaN"
  proof (rule sigma_measure_step_zero_norm [OF assms(1)])
    fix r x
    assume "r \<in> set (gen_update_row original (approx st))" "x \<in> set r"
    then show "zero_or_nan x"
      unfolding gen_update_row_def Let_def
      by (rule zn_dot_left [rotated]) (rule norm_inf_eq_zero [OF assms(1)])
  qed
  show ?thesis
    using assms(2) c r by (auto simp: gen_body_def split: if_splits)
qed

lemma f_ge_NaN [simp]: "\<not> f_ge NaN t"
  by (cases t) (simp_all add: f_ge_def)

lemma f_le_NaN [simp]: "\<not> f_le NaN t"
  by simp

lemma f_lt_NaN [simp]: "\<not> f_lt NaN t"
  by simp

text \<open>
  C4, as the code has it.  Neither routine tests the denominator of \<open>sigma\<close>.  When the
  previous approximation has infinity norm zero and the loop body is entered, the
  division is carried out with a zero divisor.  The updated approximation and its
  difference to the previous one then hold only zeros and NaNs, so the quotient is NaN;
  the loop test and the test after the loop are false on NaN, and the call returns \<open>None\<close>
  (from \<open>gen_inv\<close> also when the rank test returns first).  Nothing is raised.  When the
  approximation in question is the initial one, this is the value of the whole call.
\<close>

theorem zero_denominator:
  assumes "norm_inf (approx st) = Fin 0"
    and "f_ge (sigma st) tolerance" and "k st < max_iterations"
  shows "sigma (shultz_body original st) = NaN
       \<and> shultz_loop original tolerance max_iterations st = shultz_body original st
       \<and> shultz_result tolerance (shultz_loop original tolerance max_iterations st) = None
       \<and> (\<forall>st'. gen_body rk original st = After_Loop st' \<longrightarrow>
            sigma st' = NaN
            \<and> gen_loop rk original tolerance max_iterations st = After_Loop st')
       \<and> gen_result tolerance (gen_loop rk original tolerance max_iterations st) = None
       \<and> (st = init original \<longrightarrow>
            gen_inv rk original tolerance max_iterations = None
            \<and> shultz_inv det original tolerance max_iterations = None)"
proof -
  have s: "sigma (shultz_body original st) = NaN"
    using assms(1) by (rule sigma_shultz_body_zero_norm)
  have "shultz_loop original tolerance max_iterations st
        = shultz_loop original tolerance max_iterations (shultz_body original st)"
    using assms(2,3) by (subst shultz_loop.simps) simp
  also have "\<dots> = shultz_body original st"
    by (rule shultz_loop_stop) (simp add: s)
  finally have l: "shultz_loop original tolerance max_iterations st = shultz_body original st" .
  have g: "sigma st' = NaN \<and> gen_loop rk original tolerance max_iterations st = After_Loop st'"
    if b: "gen_body rk original st = After_Loop st'" for st'
  proof -
    have n: "sigma st' = NaN"
      using assms(1) b by (rule sigma_gen_body_zero_norm)
    have "gen_loop rk original tolerance max_iterations st
          = gen_loop rk original tolerance max_iterations st'"
      using b assms(2,3) by (rule gen_loop_continue)
    also have "\<dots> = After_Loop st'"
      by (rule gen_loop_stop) (simp add: n)
    finally show ?thesis
      using n by simp
  qed
  have r: "gen_result tolerance (gen_loop rk original tolerance max_iterations st) = None"
  proof (cases "gen_body rk original st")
    case Before_Loop
    then show ?thesis
      by (simp add: gen_body_def split: if_splits)
  next
    case (In_Loop st')
    then have "gen_loop rk original tolerance max_iterations st = In_Loop st'"
      using assms(2,3) by (subst gen_loop.simps) simp
    then show ?thesis
      by (simp add: gen_result_def)
  next
    case (After_Loop st')
    then show ?thesis
      using g [OF After_Loop] by (simp add: gen_result_def)
  qed
  have sr: "shultz_result tolerance (shultz_loop original tolerance max_iterations st) = None"
    using s l by (simp add: shultz_result_def)
  have c: "gen_inv rk original tolerance max_iterations = None
           \<and> shultz_inv det original tolerance max_iterations = None"
    if "st = init original"
    using r sr that
    by (simp add: gen_inv_def gen_run_def shultz_inv_def shultz_run_def Let_def
          split: sum.split exn.split)
  show ?thesis
    using s l g r sr c by simp
qed

text \<open>
  A call that gets there: the square of \<open>1e155\<close> overflows, so the Frobenius norm of
  \<open>[[1e155]]\<close> is computed as infinity, \<open>alpha\<close> as \<open>1.8 / inf = 0.0\<close> and the initial
  approximation as \<open>[[0.0]]\<close>, of norm zero.
\<close>

lemma init_overflow:
  "init [[Fin (10 ^ 155)]] = \<lparr>approx = [[Fin 0]], sigma = Fin 1, k = 0\<rparr>"
  by (simp add: init_def alpha_def norm_fro_def f_sum_def scalar_mul_def overflow_PInf)

lemma det_big: "det_cofactor [[Fin (10 ^ 155)]] = Fin (10 ^ 155)"
  by (simp add: det_cofactor_def f_sum_def overflow_Fin)

lemma rank_big: "rank_gauss [[Fin (10 ^ 155)]] = 1"
  by (simp add: rank_gauss_def shape_def)

lemma shultz_body_big:
  "shultz_body [[Fin (10 ^ 155)]] \<lparr>approx = [[Fin 0]], sigma = Fin 1, k = 0\<rparr>
   = \<lparr>approx = [[Fin 0]], sigma = NaN, k = 1\<rparr>"
  by (simp add: shultz_body_def shultz_update_def shultz_unit_def shape_def Let_def np_defs)

lemma gen_body_big:
  "gen_body rank_gauss [[Fin (10 ^ 155)]] \<lparr>approx = [[Fin 0]], sigma = Fin 1, k = 0\<rparr>
   = After_Loop \<lparr>approx = [[Fin 0]], sigma = NaN, k = 1\<rparr>"
  using rank_big
  by (simp add: gen_body_def measure_step_def gen_update_row_def gen_update_column_def
        gen_unit_def m_or_n_def row_or_column_def dimension_def shape_def Let_def np_defs)


lemma shultz_loop_big:
  "shultz_loop [[Fin (10 ^ 155)]] (Fin 0.0000001) 1000 (init [[Fin (10 ^ 155)]])
   = \<lparr>approx = [[Fin 0]], sigma = NaN, k = 1\<rparr>"
proof -
  have "shultz_loop [[Fin (10 ^ 155)]] (Fin 0.0000001) 1000
          \<lparr>approx = [[Fin 0]], sigma = Fin 1, k = 0\<rparr>
        = shultz_loop [[Fin (10 ^ 155)]] (Fin 0.0000001) 1000
            \<lparr>approx = [[Fin 0]], sigma = NaN, k = 1\<rparr>"
    by (subst shultz_loop.simps) (simp only: shultz_body_big, simp add: f_ge_def)
  also have "\<dots> = \<lparr>approx = [[Fin 0]], sigma = NaN, k = 1\<rparr>"
    by (rule shultz_loop_stop) simp
  finally show ?thesis
    by (simp only: init_overflow)
qed

lemma gen_loop_big:
  "gen_loop rank_gauss [[Fin (10 ^ 155)]] (Fin 0.0000001) 1000 (init [[Fin (10 ^ 155)]])
   = After_Loop \<lparr>approx = [[Fin 0]], sigma = NaN, k = 1\<rparr>"
proof -
  have "gen_loop rank_gauss [[Fin (10 ^ 155)]] (Fin 0.0000001) 1000
          \<lparr>approx = [[Fin 0]], sigma = Fin 1, k = 0\<rparr>
        = gen_loop rank_gauss [[Fin (10 ^ 155)]] (Fin 0.0000001) 1000
            \<lparr>approx = [[Fin 0]], sigma = NaN, k = 1\<rparr>"
    by (rule gen_loop_continue [OF gen_body_big]) (simp_all add: f_ge_def)
  also have "\<dots> = After_Loop \<lparr>approx = [[Fin 0]], sigma = NaN, k = 1\<rparr>"
    by (rule gen_loop_stop) simp
  finally show ?thesis
    by (simp only: init_overflow)
qed

theorem zero_denominator_witness:
  "norm_inf (approx (init [[Fin (10 ^ 155)]])) = Fin 0
   \<and> f_ge (sigma (init [[Fin (10 ^ 155)]])) (Fin 0.0000001)
   \<and> k (init [[Fin (10 ^ 155)]]) < 1000
   \<and> sigma (shultz_body [[Fin (10 ^ 155)]] (init [[Fin (10 ^ 155)]])) = NaN
   \<and> gen_inv rank_gauss [[Fin (10 ^ 155)]] (Fin 0.0000001) 1000 = None
   \<and> shultz_inv det_cofactor [[Fin (10 ^ 155)]] (Fin 0.0000001) 1000 = None"
proof -
  have h1: "norm_inf (approx (init [[Fin (10 ^ 155)]])) = Fin 0"
    unfolding init_overflow by (simp add: np_defs)
  have h2: "f_ge (sigma (init [[Fin (10 ^ 155)]])) (Fin 0.0000001)"
    by (simp add: f_ge_def)
  have h3: "k (init [[Fin (10 ^ 155)]]) < 1000"
    by simp
  show ?thesis
    using h1 h2 h3 zero_denominator [OF h1 h2 h3, of "[[Fin (10 ^ 155)]]" rank_gauss det_cofactor]
    by blast
qed

text \<open>
  C4 as stated fails: the division is not guarded.  In the calls on \<open>[[1e155]]\<close> with the
  default tolerance and bound, the first pass of either loop divides zero by zero and
  stores NaN in \<open>sigma\<close>; the loops end on it and both calls return \<open>None\<close>.
\<close>

theorem zero_denominator_counterexample:
  "norm_inf (approx (init [[Fin (10 ^ 155)]])) = Fin 0
   \<and> shultz_run det_cofactor [[Fin (10 ^ 155)]] (Fin 0.0000001) 1000
       = (None, After_Loop \<lparr>approx = [[Fin 0]], sigma = NaN, k = 1\<rparr>)
   \<and> gen_run rank_gauss [[Fin (10 ^ 155)]] (Fin 0.0000001) 1000
       = (None, After_Loop \<lparr>approx = [[Fin 0]], sigma = NaN, k = 1\<rparr>)"
proof (intro conjI)
  show "norm_inf (approx (init [[Fin (10 ^ 155)]])) = Fin 0"
    unfolding init_overflow by (simp add: np_defs)
  have "LA_det det_cofactor [[Fin (10 ^ 155)]] = Inr (Fin (10 ^ 155))"
    unfolding LA_det_def det_big by (simp add: shape_def)
  then show "shultz_run det_cofactor [[Fin (10 ^ 155)]] (Fin 0.0000001) 1000
       = (None, After_Loop \<lparr>approx = [[Fin 0]], sigma = NaN, k = 1\<rparr>)"
    unfolding shultz_run_def shultz_loop_big by (simp add: shultz_result_def)
  show "gen_run rank_gauss [[Fin (10 ^ 155)]] (Fin 0.0000001) 1000
       = (None, After_Loop \<lparr>approx = [[Fin 0]], sigma = NaN, k = 1\<rparr>)"
    unfolding gen_run_def gen_loop_big by (simp add: gen_result_def)
qed

end
